theory Spec2Isabelle
  imports Main "HOL-Library.Word"
begin

section \<open>Data model of package vaultsync\<close>

text \<open>
  The package keeps a registry of secret receivers per Vault path, logs in to Vault at
  construction, and re-reads every registered path periodically, handing each field of
  the secret to the receivers of the path.

  The Vault client, the HCL decoder, the file system, timers and the receivers are
  external to the package. Their answers are inputs of the model (the records
  \<open>world\<close> and the store function below), and every call the package makes to them is
  written to an event list, in program order. Log output is not modelled; the logger
  is, as far as a nil logger makes a log call panic.
\<close>

text \<open>Go's \<open>error\<close> values: the ones the package builds itself, and opaque ones
  coming from a library.\<close>

datatype error =
    LibError string
  | NotExist string
  | UndefinedAuthMethod
  | LoadConfigFailed string error
  | AuthenticationFailed error
  | WatcherInitFailed error

text \<open>A run-time panic of the Go program.\<close>

datatype panic = NilPointerDereference | InterfaceConversion

text \<open>The result of calling a Go function: it returns its results, or it panics.\<close>

datatype 'a outcome = Returned 'a | Panic panic

text \<open>Values of type \<open>interface{}\<close> as the JSON decoder of the Vault client produces
  them. A \<open>map[string]interface{}\<close> is the list of its entries, in the order in which a
  \<open>range\<close> statement over it visits them (Go leaves that order open; the keys of a
  map are distinct).\<close>

datatype val =
    VNil
  | VBool bool
  | VNumber string
  | VString string
  | VList "val list"
  | VMap "(string \<times> val) list"

text \<open>\<open>vault.Secret\<close>: only its \<open>Data\<close> field is read by the package.\<close>

record Secret =
  Data :: "(string \<times> val) list"

text \<open>\<open>vault.Client\<close>: the address it is bound to and the token set on it.\<close>

record Client =
  Address :: string
  Token :: string

record vaultConfig =
  Server :: string
  AuthMethod :: string
  Username :: string
  Password :: string
  RenewSecretsPeriod :: "64 word"

record config =
  Vault :: vaultConfig

text \<open>A \<open>SecretReceiver\<close> is an interface value supplied by the caller; the model
  identifies it by a handle and records each call of its \<open>UpdateSecret\<close> method.\<close>

type_synonym receiver = nat

record SecretSync =
  receivers :: "string \<rightharpoonup> receiver list"

text \<open>A \<open>*slog.Logger\<close> is a handle. While the options are applied the logger slot is a
  pointer that \<open>WithLogger\<close> may set to nil, so there it is a \<open>logger option\<close>. \<open>New\<close>
  calls \<open>agent.log.Info\<close> before anything else and panics on a nil logger, so an agent
  that exists beyond that line has a logger, and the \<open>AgentOpts\<close> embedded in an
  \<open>Agent\<close> hold a plain \<open>logger\<close>. The level variable of the options is not modelled.\<close>

type_synonym logger = nat

record 'l AgentOpts =
  log :: 'l
  configFile :: string

text \<open>Pointer fields are options: \<open>None\<close> is the nil pointer.\<close>

record Agent = "logger AgentOpts" +
  config :: "config option"
  client :: "Client option"
  secret :: "Secret option"
  secretSync :: SecretSync

datatype task = RenewAuthTokenTask | RenewSecretsTask

text \<open>The calls the package makes to its collaborators.\<close>

datatype event =
    UpdateSecret receiver string string val
  | StoreRead string
  | StoreLogin string
  | WgAdd nat
  | WgDone
  | Go task
  | WatcherStart
  | WatcherStop
  | NewTimer "64 word"
  | TimerReset "64 word"

section \<open>Receiver registry and dispatch\<close>

definition newSecretSync :: SecretSync where
  "newSecretSync = \<lparr>receivers = Map.empty\<rparr>"

text \<open>Indexing a Go map of slices: a missing key yields the nil slice.\<close>

definition index_receivers :: "(string \<rightharpoonup> receiver list) \<Rightarrow> string \<Rightarrow> receiver list" where
  "index_receivers m ident = (case m ident of None \<Rightarrow> [] | Some rs \<Rightarrow> rs)"

definition RegisterUpdateSecret :: "Agent \<Rightarrow> string \<Rightarrow> receiver \<Rightarrow> Agent" where
  "RegisterUpdateSecret a ident r =
     a\<lparr>secretSync := (secretSync a)\<lparr>receivers :=
          (receivers (secretSync a))(ident \<mapsto> index_receivers (receivers (secretSync a)) ident @ [r])\<rparr>\<rparr>"

text \<open>\<open>setSecret\<close> calls every receiver of the path, in slice order.\<close>

definition setSecret :: "Agent \<Rightarrow> string \<Rightarrow> string \<Rightarrow> val \<Rightarrow> event list" where
  "setSecret a ident fieldName v =
     map (\<lambda>r. UpdateSecret r ident fieldName v) (index_receivers (receivers (secretSync a)) ident)"

text \<open>The inner loop of \<open>renewSecretPaths\<close>: one \<open>setSecret\<close> per field of the secret.\<close>

fun dispatchFields :: "Agent \<Rightarrow> string \<Rightarrow> (string \<times> val) list \<Rightarrow> event list" where
  "dispatchFields a path [] = []"
| "dispatchFields a path ((key, v) # kvs) = setSecret a path key v @ dispatchFields a path kvs"

text \<open>The field name an \<open>UpdateSecret\<close> call carries.\<close>

fun callField :: "event \<Rightarrow> string option" where
  "callField (UpdateSecret r ident fieldName v) = Some fieldName"
| "callField _ = None"

section \<open>External collaborators\<close>

text \<open>
  What the world outside the package answers:
  \<^item> \<open>Stat\<close>: the error of \<open>os.Stat\<close> on a file name (\<open>None\<close> is nil, \<open>NotExist\<close> the
    error that \<open>os.IsNotExist\<close> recognises);
  \<^item> \<open>DecodeFile\<close>: \<open>hclsimple.DecodeFile\<close>, the decoded configuration or an error;
  \<^item> \<open>NewClient\<close>: \<open>vault.NewClient\<close> for a server address (it opens no connection);
  \<^item> \<open>NewAuth\<close>: the constructors \<open>NewAppRoleAuth\<close>, \<open>NewLDAPAuth\<close> and
    \<open>NewUserpassAuth\<close>, selected by method name, for a user name and a password;
  \<^item> \<open>Login\<close>: \<open>client.Auth().Login\<close> with that auth method, a request to the store;
  \<^item> \<open>TokenID\<close>: \<open>Secret.TokenID\<close>;
  \<^item> \<open>NewLifetimeWatcher\<close>: the error of \<open>client.NewLifetimeWatcher\<close> for a secret.
\<close>

record world =
  Stat :: "string \<Rightarrow> error option"
  DecodeFile :: "string \<Rightarrow> error + config"
  NewClient :: "string \<Rightarrow> error + Client"
  NewAuth :: "string \<Rightarrow> string \<Rightarrow> string \<Rightarrow> error option"
  Login :: "string \<Rightarrow> string \<Rightarrow> string \<Rightarrow> Secret option \<times> error option"
  TokenID :: "Secret option \<Rightarrow> error + string"
  NewLifetimeWatcher :: "Secret option \<Rightarrow> error option"

text \<open>\<open>client.Logical().Read\<close>: for a path, the pair \<open>(*Secret, error)\<close> it returns.\<close>

type_synonym store = "string \<Rightarrow> Secret option \<times> error option"

definition IsNotExist :: "error option \<Rightarrow> bool" where
  "IsNotExist err = (case err of Some (NotExist f) \<Rightarrow> True | _ \<Rightarrow> False)"

section \<open>Construction: options, configuration, authentication\<close>

text \<open>\<open>WithLogger\<close> stores the logger it is given, nil or not. \<open>WithLogLevel\<close> sets the
  level variable, which is not modelled, and so leaves the modelled options as they
  are. \<open>defaultAgentOpts\<close> creates a logger of its own.\<close>

datatype AgentOptFunc = WithConfigFile string | WithLogger "logger option" | WithLogLevel string

definition defaultLogger :: logger where
  "defaultLogger = 0"

definition defaultAgentOpts :: "logger option AgentOpts" where
  "defaultAgentOpts = \<lparr>log = Some defaultLogger, configFile = ''vault-config.hcl''\<rparr>"

fun applyOpt :: "AgentOptFunc \<Rightarrow> logger option AgentOpts \<Rightarrow> logger option AgentOpts" where
  "applyOpt (WithConfigFile file) opts = opts\<lparr>configFile := file\<rparr>"
| "applyOpt (WithLogger l) opts = opts\<lparr>log := l\<rparr>"
| "applyOpt (WithLogLevel l) opts = opts"

text \<open>\<open>loadConfig\<close> decodes the file unless \<open>os.Stat\<close> says that it does not exist; in
  that case it returns nil and leaves \<open>a.config\<close> as it was. A failed decode leaves
  a freshly allocated \<open>config\<close> behind, whose contents the caller never reads.\<close>

definition zeroConfig :: config where
  "zeroConfig = \<lparr>Vault = \<lparr>Server = [], AuthMethod = [], Username = [], Password = [],
                            RenewSecretsPeriod = 0\<rparr>\<rparr>"

definition loadConfig :: "world \<Rightarrow> Agent \<Rightarrow> string \<Rightarrow> Agent \<times> error option" where
  "loadConfig w a filename =
     (if \<not> IsNotExist (Stat w filename) then
        (case DecodeFile w filename of
           Inl err \<Rightarrow> (a\<lparr>config := Some zeroConfig\<rparr>, Some err)
         | Inr c \<Rightarrow> (a\<lparr>config := Some c\<rparr>, None))
      else (a, None))"

text \<open>One case of the switch over the auth method: build the auth method, then log in.
  The error component is what the case returns early with, if it does.\<close>

definition loginWith :: "world \<Rightarrow> Agent \<Rightarrow> string \<Rightarrow> vaultConfig \<Rightarrow> (Agent \<times> error option) \<times> event list" where
  "loginWith w a m vc =
     (case NewAuth w m (Username vc) (Password vc) of
        Some err \<Rightarrow> ((a, Some err), [])
      | None \<Rightarrow>
          (case Login w m (Username vc) (Password vc) of
             (s, err) \<Rightarrow> ((a\<lparr>secret := s\<rparr>, err), [StoreLogin m])))"

text \<open>After the switch: take the token of the login secret and set it on the client.\<close>

definition bindToken :: "world \<Rightarrow> Agent \<Rightarrow> Client \<Rightarrow> Agent \<times> error option" where
  "bindToken w a cl =
     (case TokenID w (secret a) of
        Inl err \<Rightarrow> (a, Some err)
      | Inr token \<Rightarrow> (a\<lparr>client := Some (cl\<lparr>Token := token\<rparr>)\<rparr>, None))"

definition createVaultAgent :: "world \<Rightarrow> Agent \<Rightarrow> (Agent \<times> error option) outcome \<times> event list" where
  "createVaultAgent w a =
     (case config a of
        None \<Rightarrow> (Panic NilPointerDereference, [])
      | Some c \<Rightarrow>
          (case NewClient w (Server (Vault c)) of
             Inl err \<Rightarrow> (Returned (a\<lparr>client := None\<rparr>, Some err), [])
           | Inr cl \<Rightarrow>
               (let a1 = a\<lparr>client := Some cl\<rparr>;
                    m = AuthMethod (Vault c);
                    after = (\<lambda>r. case r of
                                ((a2, Some err), es) \<Rightarrow> (Returned (a2, Some err), es)
                              | ((a2, None), es) \<Rightarrow> (Returned (bindToken w a2 cl), es))
                in if m = ''approle'' then after (loginWith w a1 ''approle'' (Vault c))
                   else if m = ''ldap'' then after (loginWith w a1 ''ldap'' (Vault c))
                   else if m = ''userpass'' then after (loginWith w a1 ''userpass'' (Vault c))
                   else (Returned (a1, Some UndefinedAuthMethod), []))))"

text \<open>\<open>New\<close> returns the pair \<open>(*Agent, error)\<close>. Its first log call, before the
  configuration is loaded, dereferences the logger of the options.\<close>

definition New :: "world \<Rightarrow> AgentOptFunc list \<Rightarrow> (Agent option \<times> error option) outcome \<times> event list" where
  "New w opts =
     (let agentOpts = fold applyOpt opts defaultAgentOpts
      in case log agentOpts of
           None \<Rightarrow> (Panic NilPointerDereference, [])
         | Some l \<Rightarrow>
             (let agent = \<lparr>log = l, configFile = configFile agentOpts, config = None,
                           client = None, secret = None, secretSync = newSecretSync\<rparr>
              in case loadConfig w agent (configFile agent) of
                   (agent1, Some err) \<Rightarrow>
                     (Returned (None, Some (LoadConfigFailed (configFile agent) err)), [])
                 | (agent1, None) \<Rightarrow>
                     (case createVaultAgent w agent1 of
                        (Panic p, es) \<Rightarrow> (Panic p, es)
                      | (Returned (agent2, Some err), es) \<Rightarrow>
                          (Returned (None, Some (AuthenticationFailed err)), es)
                      | (Returned (agent2, None), es) \<Rightarrow>
                          (Returned (Some agent2, None), es))))"

section \<open>Refresh pass\<close>

text \<open>\<open>secret.Data["data"].(map[string]interface{})\<close>: a nil \<open>secret\<close> panics at the
  field access, and a missing or differently typed \<open>"data"\<close> entry panics at the type
  assertion, which has no comma-ok form here.\<close>

definition secretFields :: "Secret option \<Rightarrow> panic + (string \<times> val) list" where
  "secretFields s =
     (case s of
        None \<Rightarrow> Inl NilPointerDereference
      | Some sec \<Rightarrow>
          (case map_of (Data sec) ''data'' of
             Some (VMap kvs) \<Rightarrow> Inr kvs
           | _ \<Rightarrow> Inl InterfaceConversion))"

text \<open>\<open>renewSecretPaths\<close> ranges over the keys of the registry; the list argument is the
  order in which that \<open>range\<close> visits them. The error of \<open>Read\<close> is assigned to the
  blank identifier. The log call after the dispatch reads \<open>a.config\<close>.\<close>

fun renewSecretPaths :: "Agent \<Rightarrow> store \<Rightarrow> string list \<Rightarrow> unit outcome \<times> event list" where
  "renewSecretPaths a st [] = (Returned (), [])"
| "renewSecretPaths a st (path # rest) =
     (case client a of
        None \<Rightarrow> (Panic NilPointerDereference, [])
      | Some cl \<Rightarrow>
          (case secretFields (fst (st path)) of
             Inl p \<Rightarrow> (Panic p, [StoreRead path])
           | Inr kvs \<Rightarrow>
               (case config a of
                  None \<Rightarrow> (Panic NilPointerDereference, StoreRead path # dispatchFields a path kvs)
                | Some c \<Rightarrow>
                    (case renewSecretPaths a st rest of
                       (r, es) \<Rightarrow> (r, StoreRead path # dispatchFields a path kvs @ es)))))"

section \<open>Run and the two loops\<close>

text \<open>\<open>Run\<close> adds two to the wait group, launches the two loops with \<open>go\<close> (which
  drops what they return) and performs one refresh pass itself. The context and the wait
  group appear in the model as the events on them.\<close>

definition Run :: "Agent \<Rightarrow> store \<Rightarrow> string list \<Rightarrow> error option outcome \<times> event list" where
  "Run a st order =
     (case renewSecretPaths a st order of
        (Returned u, es) \<Rightarrow>
          (Returned None, WgAdd 2 # Go RenewAuthTokenTask # Go RenewSecretsTask # es)
      | (Panic p, es) \<Rightarrow>
          (Panic p, WgAdd 2 # Go RenewAuthTokenTask # Go RenewSecretsTask # es))"

text \<open>A loop blocks in \<open>select\<close>. The communication that each \<open>select\<close> takes is an
  input: the list of the cases taken, in order. A loop that has not returned when the
  list ends is still blocked, and its result is \<open>None\<close>.\<close>

datatype auth_select = AuthCtxDone | DoneCh "error option" | RenewCh int

fun watchLoop :: "auth_select list \<Rightarrow> error option option" where
  "watchLoop [] = None"
| "watchLoop (AuthCtxDone # rest) = Some None"
| "watchLoop (DoneCh err # rest) = Some err"
| "watchLoop (RenewCh d # rest) = watchLoop rest"

text \<open>The deferred calls run when the function returns: first \<open>Stop\<close> on the watcher,
  then \<open>wg.Done\<close>.\<close>

definition renewAuthToken :: "world \<Rightarrow> Agent \<Rightarrow> auth_select list \<Rightarrow> error option outcome option \<times> event list" where
  "renewAuthToken w a sel =
     (case NewLifetimeWatcher w (secret a) of
        Some err \<Rightarrow> (Some (Returned (Some (WatcherInitFailed err))), [WgDone])
      | None \<Rightarrow>
          (case watchLoop sel of
             None \<Rightarrow> (None, [WatcherStart])
           | Some r \<Rightarrow> (Some (Returned r), [WatcherStart, WatcherStop, WgDone])))"

text \<open>When the timer case is taken, the pass that follows has its own visiting order
  and its own answers of the store.\<close>

datatype refresh_select = RefreshCtxDone | TimerC "string list" store

text \<open>\<open>time.Duration(p) * time.Second\<close> is a multiplication of 64-bit integers.\<close>

definition sleepDuration :: "config \<Rightarrow> 64 word" where
  "sleepDuration c = RenewSecretsPeriod (Vault c) * 1000000000"

fun refreshLoop :: "Agent \<Rightarrow> 64 word \<Rightarrow> refresh_select list \<Rightarrow> error option outcome option \<times> event list" where
  "refreshLoop a d [] = (None, [])"
| "refreshLoop a d (RefreshCtxDone # rest) = (Some (Returned None), [])"
| "refreshLoop a d (TimerC order st # rest) =
     (case renewSecretPaths a st order of
        (Panic p, es) \<Rightarrow> (Some (Panic p), es)
      | (Returned u, es) \<Rightarrow>
          (case refreshLoop a d rest of
             (r, es') \<Rightarrow> (r, es @ TimerReset d # es')))"

definition renewSecrets :: "Agent \<Rightarrow> refresh_select list \<Rightarrow> error option outcome option \<times> event list" where
  "renewSecrets a sel =
     (case config a of
        None \<Rightarrow> (Some (Panic NilPointerDereference), [WgDone])
      | Some c \<Rightarrow>
          (case refreshLoop a (sleepDuration c) sel of
             (None, es) \<Rightarrow> (None, NewTimer (sleepDuration c) # es)
           | (Some r, es) \<Rightarrow> (Some r, NewTimer (sleepDuration c) # es @ [WgDone])))"

section \<open>Timed runs of the refresh loop\<close>

text \<open>
  The source has no clock; when something happens is decided by the runtime. To speak
  about the times of the passes, the cases taken by the \<open>select\<close> of the refresh loop
  are given with time stamps, in nanoseconds: the time at which the case is taken and,
  for the timer case, the time at which the pass that follows returns, which is when
  \<open>timer.Reset\<close> is called.
\<close>

datatype timed_select = CtxDoneAt int | TimerAt int "string list" store int

fun untimed :: "timed_select list \<Rightarrow> refresh_select list" where
  "untimed [] = []"
| "untimed (CtxDoneAt t # rest) = RefreshCtxDone # untimed rest"
| "untimed (TimerAt t order st t' # rest) = TimerC order st # untimed rest"

text \<open>For each pass the loop runs: when the timer it waited for was armed and with which
  duration, when the pass started, and when it returned (\<open>None\<close> if it panicked).\<close>

record pass_times =
  armed :: int
  period :: "64 word"
  started :: int
  returned :: "int option"

text \<open>The loop of \<open>renewSecrets\<close> again, keeping the times: the timer that the first
  \<open>select\<close> waits for was armed by \<open>time.NewTimer\<close>, and after a pass has returned the
  timer is armed anew by \<open>timer.Reset\<close>, with the same duration.\<close>

fun passTimes :: "Agent \<Rightarrow> 64 word \<Rightarrow> int \<Rightarrow> timed_select list \<Rightarrow> pass_times list" where
  "passTimes a d ta [] = []"
| "passTimes a d ta (CtxDoneAt t # rest) = []"
| "passTimes a d ta (TimerAt t order st t' # rest) =
     (case renewSecretPaths a st order of
        (Panic p, es) \<Rightarrow> [\<lparr>armed = ta, period = d, started = t, returned = None\<rparr>]
      | (Returned u, es) \<Rightarrow>
          \<lparr>armed = ta, period = d, started = t, returned = Some t'\<rparr> # passTimes a d t' rest)"

definition renewSecretsTimes :: "Agent \<Rightarrow> int \<Rightarrow> timed_select list \<Rightarrow> pass_times list" where
  "renewSecretsTimes a t0 sel =
     (case config a of
        None \<Rightarrow> []
      | Some c \<Rightarrow> passTimes a (sleepDuration c) t0 sel)"

text \<open>What the runtime guarantees for one pass: a timer delivers on its channel no
  earlier than its duration after it was armed, and not before it was armed; and a
  pass does not return before it starts.\<close>

definition timerContract :: "pass_times \<Rightarrow> bool" where
  "timerContract p =
     (armed p \<le> started p \<and> armed p + sint (period p) \<le> started p
      \<and> (case returned p of None \<Rightarrow> True | Some r \<Rightarrow> started p \<le> r))"

section \<open>Sequences of registrations, and the example program\<close>

text \<open>A caller registering several receivers, one call after the other.\<close>

definition registerAll :: "(string \<times> receiver) list \<Rightarrow> Agent \<Rightarrow> Agent" where
  "registerAll regs a = fold (\<lambda>(ident, r) b. RegisterUpdateSecret b ident r) regs a"

text \<open>The objects of the example program and of the README: its configuration file,
  its two receivers, and a store that holds a version 2 key-value secret for each.\<close>

definition redisPath :: string where
  "redisPath = ''secrets/data/netpush/redis''"

definition netboxPath :: string where
  "netboxPath = ''secrets/data/netpush/netbox''"

definition exampleConfig :: config where
  "exampleConfig = \<lparr>Vault = \<lparr>Server = ''http://localhost:8200'', AuthMethod = ''userpass'',
       Username = ''go'', Password = ''secret'', RenewSecretsPeriod = 30\<rparr>\<rparr>"

definition exampleLogin :: Secret where
  "exampleLogin = \<lparr>Data = []\<rparr>"

definition exampleWorld :: world where
  "exampleWorld = \<lparr>
     Stat = (\<lambda>f. if f = ''config.hcl'' then None else Some (NotExist f)),
     DecodeFile = (\<lambda>f. Inr exampleConfig),
     NewClient = (\<lambda>addr. Inr \<lparr>Address = addr, Token = []\<rparr>),
     NewAuth = (\<lambda>m u p. None),
     Login = (\<lambda>m u p. (Some exampleLogin, None)),
     TokenID = (\<lambda>s. Inr ''s.token''),
     NewLifetimeWatcher = (\<lambda>s. None)\<rparr>"

definition newAgent :: Agent where
  "newAgent = \<lparr>log = defaultLogger, configFile = ''config.hcl'', config = Some exampleConfig,
     client = Some \<lparr>Address = ''http://localhost:8200'', Token = ''s.token''\<rparr>,
     secret = Some exampleLogin, secretSync = newSecretSync\<rparr>"

definition exampleAgent :: Agent where
  "exampleAgent = RegisterUpdateSecret (RegisterUpdateSecret newAgent redisPath 0) netboxPath 1"

definition kv2 :: "string \<Rightarrow> string \<Rightarrow> Secret" where
  "kv2 u p = \<lparr>Data = [(''data'', VMap [(''user'', VString u), (''password'', VString p)]),
                     (''metadata'', VMap [])]\<rparr>"

definition exampleStore :: store where
  "exampleStore path =
     (if path = redisPath then (Some (kv2 ''alice'' ''p1''), None)
      else if path = netboxPath then (Some (kv2 ''bob'' ''p2''), None)
      else (None, None))"

text \<open>A store whose read of the first path fails, and a world whose configuration file
  names an authentication method that the package does not know.\<close>

definition failingStore :: store where
  "failingStore path =
     (if path = redisPath then (None, Some (LibError ''connection refused''))
      else exampleStore path)"

definition kerberosWorld :: world where
  "kerberosWorld = exampleWorld\<lparr>DecodeFile :=
     (\<lambda>f. Inr \<lparr>Vault = \<lparr>Server = ''http://localhost:8200'', AuthMethod = ''kerberos'',
       Username = ''go'', Password = ''secret'', RenewSecretsPeriod = 30\<rparr>\<rparr>)\<rparr>"

text \<open>Configurations with a non-positive renewal period, and the agents that \<open>New\<close>
  builds from them.\<close>

definition wrapConfig :: config where
  "wrapConfig = \<lparr>Vault = \<lparr>Server = ''http://localhost:8200'', AuthMethod = ''userpass'',
       Username = ''go'', Password = ''secret'', RenewSecretsPeriod = - 9223372037\<rparr>\<rparr>"

definition wrapWorld :: world where
  "wrapWorld = exampleWorld\<lparr>DecodeFile := (\<lambda>f. Inr wrapConfig)\<rparr>"

definition wrapAgent :: Agent where
  "wrapAgent = newAgent\<lparr>config := Some wrapConfig\<rparr>"

definition negativeConfig :: config where
  "negativeConfig = \<lparr>Vault = \<lparr>Server = ''http://localhost:8200'', AuthMethod = ''userpass'',
       Username = ''go'', Password = ''secret'', RenewSecretsPeriod = - 5\<rparr>\<rparr>"

definition negativeWorld :: world where
  "negativeWorld = exampleWorld\<lparr>DecodeFile := (\<lambda>f. Inr negativeConfig)\<rparr>"

definition negativeAgent :: Agent where
  "negativeAgent = newAgent\<lparr>config := Some negativeConfig\<rparr>"

text \<open>The passes of a refresh loop, as select choices.\<close>

definition ticks :: "(string list \<times> store) list \<Rightarrow> refresh_select list" where
  "ticks passes = map (\<lambda>(order, st). TimerC order st) passes"

text \<open>Two timed runs: the example agent with its period of 30 seconds, whose first pass
  takes 45 seconds, and an agent whose period of 9223372037 seconds does not fit into
  a duration.\<close>

definition exampleRun :: "timed_select list" where
  "exampleRun =
     [TimerAt 30000000000 [redisPath, netboxPath] exampleStore 75000000000,
      TimerAt 105000000000 [netboxPath, redisPath] exampleStore 105005000000,
      CtxDoneAt 120000000000]"

definition overflowConfig :: config where
  "overflowConfig = \<lparr>Vault = \<lparr>Server = ''http://localhost:8200'', AuthMethod = ''userpass'',
       Username = ''go'', Password = ''secret'', RenewSecretsPeriod = 9223372037\<rparr>\<rparr>"

definition overflowAgent :: Agent where
  "overflowAgent = exampleAgent\<lparr>config := Some overflowConfig\<rparr>"

definition overflowRun :: "timed_select list" where
  "overflowRun =
     [TimerAt 1000 [redisPath, netboxPath] exampleStore 5001000,
      TimerAt 5002000 [redisPath, netboxPath] exampleStore 10002000]"

section \<open>Registration\<close>

lemma index_Register:
  "index_receivers (receivers (secretSync (RegisterUpdateSecret a L C))) L'
     = (if L' = L then index_receivers (receivers (secretSync a)) L @ [C]
        else index_receivers (receivers (secretSync a)) L')"
  by (simp add: RegisterUpdateSecret_def index_receivers_def)

lemma setSecret_Register:
  "setSecret (RegisterUpdateSecret a L C) L k v = setSecret a L k v @ [UpdateSecret C L k v]"
  by (simp add: setSecret_def index_Register)

lemma registerAll_keeps:
  "C \<in> set (index_receivers (receivers (secretSync a)) L) \<Longrightarrow>
   C \<in> set (index_receivers (receivers (secretSync (registerAll regs a))) L)"
proof (induction regs arbitrary: a)
  case Nil
  then show ?case by (simp add: registerAll_def)
next
  case (Cons x regs)
  obtain L' C' where x: "x = (L', C')" by (cases x)
  from Cons.prems have "C \<in> set (index_receivers (receivers (secretSync (RegisterUpdateSecret a L' C'))) L)"
    by (auto simp: index_Register)
  from Cons.IH [OF this] show ?case by (simp add: registerAll_def x)
qed

lemma registerAll_same_path:
  "index_receivers (receivers (secretSync (registerAll (map (Pair L) cs) a))) L
     = index_receivers (receivers (secretSync a)) L @ cs"
proof (induction cs arbitrary: a)
  case Nil
  then show ?case by (simp add: registerAll_def)
next
  case (Cons c cs)
  have "registerAll (map (Pair L) (c # cs)) a = registerAll (map (Pair L) cs) (RegisterUpdateSecret a L c)"
    by (simp add: registerAll_def)
  then show ?case by (simp add: Cons.IH index_Register)
qed

text \<open>
  Claim C6. \<open>RegisterUpdateSecret\<close> appends the receiver to the list of the location,
  creating the list when the location has none, and leaves other locations alone.
  Registering the same receiver twice gives two entries and two calls per dispatch.
  Receivers registered one after the other are called in that order, and after a
  receiver has been registered for a location every later dispatch to the location,
  whatever else has been registered in between, calls it.
\<close>

theorem register_appends_in_order:
  "index_receivers (receivers (secretSync (RegisterUpdateSecret a L C))) L
      = index_receivers (receivers (secretSync a)) L @ [C]
   \<and> (receivers (secretSync a) L = None \<longrightarrow>
        receivers (secretSync (RegisterUpdateSecret a L C)) L = Some [C])
   \<and> (\<forall>L'. L' \<noteq> L \<longrightarrow>
        receivers (secretSync (RegisterUpdateSecret a L C)) L' = receivers (secretSync a) L')
   \<and> setSecret (RegisterUpdateSecret (RegisterUpdateSecret a L C) L C) L k v
        = setSecret a L k v @ [UpdateSecret C L k v, UpdateSecret C L k v]
   \<and> setSecret (registerAll (map (Pair L) cs) a) L k v
        = setSecret a L k v @ map (\<lambda>r. UpdateSecret r L k v) cs
   \<and> (\<forall>regs. UpdateSecret C L k v \<in> set (setSecret (registerAll regs (RegisterUpdateSecret a L C)) L k v))"
proof -
  have 1: "index_receivers (receivers (secretSync (RegisterUpdateSecret a L C))) L
      = index_receivers (receivers (secretSync a)) L @ [C]"
    by (simp add: index_Register)
  have 2: "receivers (secretSync a) L = None \<longrightarrow>
        receivers (secretSync (RegisterUpdateSecret a L C)) L = Some [C]"
    by (simp add: RegisterUpdateSecret_def index_receivers_def)
  have 3: "\<forall>L'. L' \<noteq> L \<longrightarrow>
        receivers (secretSync (RegisterUpdateSecret a L C)) L' = receivers (secretSync a) L'"
    by (simp add: RegisterUpdateSecret_def)
  have 4: "setSecret (RegisterUpdateSecret (RegisterUpdateSecret a L C) L C) L k v
        = setSecret a L k v @ [UpdateSecret C L k v, UpdateSecret C L k v]"
    by (simp add: setSecret_Register)
  have 5: "setSecret (registerAll (map (Pair L) cs) a) L k v
        = setSecret a L k v @ map (\<lambda>r. UpdateSecret r L k v) cs"
    by (simp add: setSecret_def registerAll_same_path)
  have 6: "\<forall>regs. UpdateSecret C L k v \<in> set (setSecret (registerAll regs (RegisterUpdateSecret a L C)) L k v)"
  proof
    fix regs
    have "C \<in> set (index_receivers (receivers (secretSync (RegisterUpdateSecret a L C))) L)"
      by (simp add: index_Register)
    from registerAll_keeps [OF this, of regs] show "UpdateSecret C L k v \<in> set (setSecret (registerAll regs (RegisterUpdateSecret a L C)) L k v)"
      by (simp add: setSecret_def)
  qed
  from 1 2 3 4 5 6 show ?thesis by blast
qed

theorem register_appends_in_order_witness:
  "receivers (secretSync newAgent) redisPath = None
   \<and> receivers (secretSync (RegisterUpdateSecret newAgent redisPath 0)) redisPath = Some [0]
   \<and> netboxPath \<noteq> redisPath
   \<and> receivers (secretSync (RegisterUpdateSecret newAgent redisPath 0)) netboxPath = None
   \<and> UpdateSecret 0 redisPath ''user'' (VString ''alice'')
       \<in> set (setSecret (registerAll [(netboxPath, 1), (redisPath, 2)]
                          (RegisterUpdateSecret newAgent redisPath 0)) redisPath ''user'' (VString ''alice''))"
proof -
  have h1: "receivers (secretSync newAgent) redisPath = None"
    by (simp add: newAgent_def newSecretSync_def)
  have h2: "netboxPath \<noteq> redisPath"
    by (simp add: netboxPath_def redisPath_def)
  have h3: "receivers (secretSync newAgent) netboxPath = None"
    by (simp add: newAgent_def newSecretSync_def)
  show ?thesis
    using h1 h2 h3 register_appends_in_order [of newAgent redisPath 0 "''user''" "VString ''alice''" "[]"]
    by auto
qed

section \<open>Dispatch\<close>

lemma setSecret_callField:
  "filter (\<lambda>e. callField e = Some k) (setSecret a L k' v) = (if k' = k then setSecret a L k' v else [])"
  by (simp add: setSecret_def filter_map o_def)

lemma dispatchFields_concat:
  "dispatchFields a L kvs = concat (map (\<lambda>(k, v). setSecret a L k v) kvs)"
  by (induction kvs) auto

lemma dispatchFields_filter_absent:
  "k \<notin> fst ` set kvs \<Longrightarrow> filter (\<lambda>e. callField e = Some k) (dispatchFields a L kvs) = []"
  by (induction kvs) (auto simp: setSecret_callField)

lemma dispatchFields_filter:
  "distinct (map fst kvs) \<Longrightarrow> (k, v) \<in> set kvs \<Longrightarrow>
     filter (\<lambda>e. callField e = Some k) (dispatchFields a L kvs) = setSecret a L k v"
proof (induction kvs)
  case Nil
  then show ?case by simp
next
  case (Cons kv kvs)
  obtain k' v' where kv: "kv = (k', v')" by (cases kv)
  show ?case
  proof (cases "k' = k")
    case True
    with Cons.prems kv have "v' = v" by (auto simp: image_iff)
    moreover from Cons.prems kv True have "k \<notin> fst ` set kvs" by simp
    ultimately show ?thesis
      using kv True by (simp add: setSecret_callField dispatchFields_filter_absent)
  next
    case False
    with Cons kv show ?thesis by (auto simp: setSecret_callField)
  qed
qed

lemma dispatchFields_set:
  "e \<in> set (dispatchFields a L kvs) \<Longrightarrow>
     \<exists>r k v. e = UpdateSecret r L k v \<and> r \<in> set (index_receivers (receivers (secretSync a)) L) \<and> (k, v) \<in> set kvs"
  by (induction kvs) (auto simp: setSecret_def)

lemma dispatchFields_unregistered:
  "index_receivers (receivers (secretSync a)) L = [] \<Longrightarrow> dispatchFields a L kvs = []"
  by (induction kvs) (auto simp: setSecret_def)

lemma exampleAgent_receivers:
  "index_receivers (receivers (secretSync exampleAgent)) redisPath = [0]"
  "index_receivers (receivers (secretSync exampleAgent)) netboxPath = [1]"
  by (simp_all add: exampleAgent_def RegisterUpdateSecret_def newAgent_def newSecretSync_def index_receivers_def redisPath_def netboxPath_def)

text \<open>
  Claim C4. Dispatching the fields of a secret for a location calls, for every field,
  the receivers registered for that location, one call per registration and in
  registration order; it calls nobody else, and every call carries that location and
  one of the fields; for a location without registrations it makes no call (and, being
  a plain loop over a possibly nil slice, cannot fail). The overall order is: fields in
  the order of the range over the field map, and within a field the receivers in
  registration order.
\<close>

theorem dispatch_once_per_field_in_registration_order:
  assumes "distinct (map fst kvs)"
  shows "dispatchFields a L kvs
            = concat (map (\<lambda>(k, v). map (\<lambda>r. UpdateSecret r L k v)
                                        (index_receivers (receivers (secretSync a)) L)) kvs)
       \<and> (\<forall>(k, v) \<in> set kvs.
            filter (\<lambda>e. callField e = Some k) (dispatchFields a L kvs)
              = map (\<lambda>r. UpdateSecret r L k v) (index_receivers (receivers (secretSync a)) L))
       \<and> (\<forall>e \<in> set (dispatchFields a L kvs).
            \<exists>r k v. e = UpdateSecret r L k v
                  \<and> r \<in> set (index_receivers (receivers (secretSync a)) L) \<and> (k, v) \<in> set kvs)
       \<and> (receivers (secretSync a) L = None \<longrightarrow> dispatchFields a L kvs = [])"
proof -
  have "dispatchFields a L kvs
            = concat (map (\<lambda>(k, v). map (\<lambda>r. UpdateSecret r L k v)
                                        (index_receivers (receivers (secretSync a)) L)) kvs)"
    by (simp add: dispatchFields_concat setSecret_def)
  moreover have "\<forall>(k, v) \<in> set kvs.
            filter (\<lambda>e. callField e = Some k) (dispatchFields a L kvs)
              = map (\<lambda>r. UpdateSecret r L k v) (index_receivers (receivers (secretSync a)) L)"
    using dispatchFields_filter [OF assms] by (auto simp: setSecret_def)
  moreover have "\<forall>e \<in> set (dispatchFields a L kvs).
            \<exists>r k v. e = UpdateSecret r L k v
                  \<and> r \<in> set (index_receivers (receivers (secretSync a)) L) \<and> (k, v) \<in> set kvs"
    using dispatchFields_set by blast
  moreover have "receivers (secretSync a) L = None \<longrightarrow> dispatchFields a L kvs = []"
    by (simp add: dispatchFields_unregistered index_receivers_def)
  ultimately show ?thesis by blast
qed

theorem dispatch_once_per_field_in_registration_order_witness:
  "distinct (map fst [(''user'', VString ''alice''), (''password'', VString ''p1'')])
   \<and> filter (\<lambda>e. callField e = Some ''password'')
        (dispatchFields (RegisterUpdateSecret exampleAgent redisPath 2) redisPath
           [(''user'', VString ''alice''), (''password'', VString ''p1'')])
      = [UpdateSecret 0 redisPath ''password'' (VString ''p1''),
         UpdateSecret 2 redisPath ''password'' (VString ''p1'')]
   \<and> receivers (secretSync exampleAgent) ''secrets/data/netpush/none'' = None
   \<and> dispatchFields exampleAgent ''secrets/data/netpush/none''
         [(''user'', VString ''alice''), (''password'', VString ''p1'')] = []"
proof -
  have h: "distinct (map fst [(''user'', VString ''alice''), (''password'', VString ''p1'')])"
    by simp
  have n: "receivers (secretSync exampleAgent) ''secrets/data/netpush/none'' = None"
    by (simp add: exampleAgent_def RegisterUpdateSecret_def newAgent_def newSecretSync_def
        redisPath_def netboxPath_def)
  have 1: "filter (\<lambda>e. callField e = Some ''password'')
        (dispatchFields (RegisterUpdateSecret exampleAgent redisPath 2) redisPath
           [(''user'', VString ''alice''), (''password'', VString ''p1'')])
      = [UpdateSecret 0 redisPath ''password'' (VString ''p1''),
         UpdateSecret 2 redisPath ''password'' (VString ''p1'')]"
    using dispatch_once_per_field_in_registration_order
      [OF h, of "RegisterUpdateSecret exampleAgent redisPath 2" redisPath]
    by (simp add: index_Register exampleAgent_receivers)
  have 2: "dispatchFields exampleAgent ''secrets/data/netpush/none''
         [(''user'', VString ''alice''), (''password'', VString ''p1'')] = []"
    using n dispatch_once_per_field_in_registration_order
      [OF h, of exampleAgent "''secrets/data/netpush/none''"]
    by blast
  from h n 1 2 show ?thesis by blast
qed

section \<open>The refresh pass\<close>

lemma exampleAgent_fields:
  "client exampleAgent = Some \<lparr>Address = ''http://localhost:8200'', Token = ''s.token''\<rparr>"
  "config exampleAgent = Some exampleConfig"
  by (simp_all add: exampleAgent_def RegisterUpdateSecret_def newAgent_def)

lemma secretFields_kv2:
  "secretFields (Some (kv2 u p)) = Inr [(''user'', VString u), (''password'', VString p)]"
  by (simp add: secretFields_def kv2_def)

lemma paths_distinct: "redisPath \<noteq> netboxPath" "netboxPath \<noteq> redisPath"
  by (simp_all add: redisPath_def netboxPath_def)

lemma pass_example:
  "renewSecretPaths exampleAgent exampleStore [redisPath, netboxPath] =
     (Returned (),
      [StoreRead redisPath,
       UpdateSecret 0 redisPath ''user'' (VString ''alice''),
       UpdateSecret 0 redisPath ''password'' (VString ''p1''),
       StoreRead netboxPath,
       UpdateSecret 1 netboxPath ''user'' (VString ''bob''),
       UpdateSecret 1 netboxPath ''password'' (VString ''p2'')])"
  by (simp add: exampleAgent_fields exampleStore_def secretFields_kv2 paths_distinct
      setSecret_def exampleAgent_receivers)

text \<open>A pass that returns has read every path it visited, obtained the fields of a
  secret from each read, and dispatched them; its events are reads and receiver calls
  only.\<close>

lemma pass_returned_location:
  "renewSecretPaths a st order = (Returned u, es) \<Longrightarrow> L \<in> set order \<Longrightarrow>
     \<exists>kvs pre post. secretFields (fst (st L)) = Inr kvs
        \<and> es = pre @ StoreRead L # dispatchFields a L kvs @ post"
proof (induction order arbitrary: es)
  case Nil
  then show ?case by simp
next
  case (Cons path rest)
  from Cons.prems(1) obtain cl kvs c es' where
    f: "secretFields (fst (st path)) = Inr kvs"
    and r: "renewSecretPaths a st rest = (Returned u, es')"
    and es: "es = StoreRead path # dispatchFields a path kvs @ es'"
    by (auto split: option.splits sum.splits prod.splits)
  show ?case
  proof (cases "L = path")
    case True
    with f es have "secretFields (fst (st L)) = Inr kvs
        \<and> es = [] @ StoreRead L # dispatchFields a L kvs @ es'" by simp
    then show ?thesis by blast
  next
    case False
    with Cons.prems(2) have "L \<in> set rest" by simp
    from Cons.IH [OF r this] obtain kvs' pre post where
      "secretFields (fst (st L)) = Inr kvs'" "es' = pre @ StoreRead L # dispatchFields a L kvs' @ post"
      by blast
    with es have "secretFields (fst (st L)) = Inr kvs'
        \<and> es = (StoreRead path # dispatchFields a path kvs @ pre) @ StoreRead L # dispatchFields a L kvs' @ post"
      by simp
    then show ?thesis by blast
  qed
qed

lemma pass_events:
  "e \<in> set (snd (renewSecretPaths a st order)) \<Longrightarrow>
     (\<exists>L. e = StoreRead L) \<or> (\<exists>r L k v. e = UpdateSecret r L k v)"
proof (induction order)
  case Nil
  then show ?case by simp
next
  case (Cons path rest)
  then show ?case
    by (auto split: option.splits sum.splits prod.splits dest: dispatchFields_set)
qed

text \<open>A pass completes when every read yields a secret with a field map, and it cannot
  complete when some read yields the nil secret.\<close>

lemma pass_completes:
  "client a = Some cl \<Longrightarrow> config a = Some c \<Longrightarrow>
   \<forall>L \<in> set order. \<exists>kvs. secretFields (fst (st L)) = Inr kvs \<Longrightarrow>
   fst (renewSecretPaths a st order) = Returned ()"
  by (induction order) (auto split: prod.splits)

lemma pass_aborts_on_nil_secret:
  assumes "L \<in> set order" and "fst (st L) = None"
  shows "\<exists>p. fst (renewSecretPaths a st order) = Panic p"
proof (cases "renewSecretPaths a st order")
  case (Pair r es)
  show ?thesis
  proof (cases r)
    case (Returned u)
    from pass_returned_location [OF Pair [unfolded Returned] assms(1)] assms(2)
    show ?thesis by (simp add: secretFields_def)
  next
    case (Panic p)
    with Pair show ?thesis by simp
  qed
qed

text \<open>
  Claim C1 says that a failed read of one location is skipped and the pass goes on with
  the other locations. The code drops the error of \<open>Read\<close> and then reads
  \<open>secret.Data\<close> through the nil pointer that a failed read returns: with two
  registered locations and a store whose read of the first one fails, the pass panics
  after that read, the second location is never read, and the refresh loop that runs
  the pass ends with the panic.
\<close>

theorem failed_read_aborts_pass:
  "snd (failingStore redisPath) = Some (LibError ''connection refused'')
   \<and> renewSecretPaths exampleAgent failingStore [redisPath, netboxPath]
       = (Panic NilPointerDereference, [StoreRead redisPath])
   \<and> renewSecrets exampleAgent [TimerC [redisPath, netboxPath] failingStore, RefreshCtxDone]
       = (Some (Panic NilPointerDereference),
          [NewTimer 30000000000, StoreRead redisPath, WgDone])"
  by (simp add: failingStore_def exampleAgent_fields secretFields_def renewSecrets_def
      sleepDuration_def exampleConfig_def)

section \<open>Construction\<close>

text \<open>The example program's call of \<open>New\<close>: one login, and an agent with the logger
  passed in, the decoded configuration, the client holding the token, and an empty
  registry.\<close>

lemma New_example:
  "New exampleWorld [WithConfigFile ''config.hcl'', WithLogLevel ''info'', WithLogger (Some 1)]
     = (Returned (Some (newAgent\<lparr>log := 1\<rparr>), None), [StoreLogin ''userpass''])"
  by (simp add: New_def defaultAgentOpts_def loadConfig_def createVaultAgent_def loginWith_def
      bindToken_def exampleWorld_def IsNotExist_def exampleConfig_def newAgent_def)

text \<open>With a nil logger among the options (and no later option replacing it) \<open>New\<close>
  panics at its first log call.\<close>

lemma New_nil_logger:
  assumes "log (fold applyOpt opts defaultAgentOpts) = None"
  shows "New w opts = (Panic NilPointerDereference, [])"
  using assms by (simp add: New_def)

text \<open>Options without \<open>WithLogger\<close> keep the logger that \<open>defaultAgentOpts\<close> creates.\<close>

lemma fold_applyOpt_log:
  "\<forall>l. WithLogger l \<notin> set opts \<Longrightarrow> log (fold applyOpt opts o0) = log o0"
proof (induction opts arbitrary: o0)
  case Nil
  then show ?case by simp
next
  case (Cons x opts)
  then show ?case by (cases x) auto
qed

lemma default_logger_kept:
  "\<forall>l. WithLogger l \<notin> set opts \<Longrightarrow>
     log (fold applyOpt opts defaultAgentOpts) = Some defaultLogger"
  by (simp add: fold_applyOpt_log defaultAgentOpts_def)

text \<open>Whatever the options and the world: when \<open>os.Stat\<close> reports the configuration
  file as not existing, \<open>New\<close> panics before it calls anything else.\<close>

lemma New_absent_file:
  assumes "IsNotExist (Stat w (configFile (fold applyOpt opts defaultAgentOpts)))"
  shows "New w opts = (Panic NilPointerDereference, [])"
proof (cases "log (fold applyOpt opts defaultAgentOpts)")
  case None
  then show ?thesis by (rule New_nil_logger)
next
  case (Some l)
  let ?agent = "\<lparr>log = l, configFile = configFile (fold applyOpt opts defaultAgentOpts),
                  config = None, client = None, secret = None, secretSync = newSecretSync\<rparr>"
  have "loadConfig w ?agent (configFile ?agent) = (?agent, None)"
    using assms by (simp add: loadConfig_def)
  moreover have "createVaultAgent w ?agent = (Panic NilPointerDereference, [])"
    by (simp add: createVaultAgent_def)
  ultimately show ?thesis using Some by (simp add: New_def Let_def)
qed

text \<open>
  Claim C2 says that \<open>New\<close> returns an error when the configuration file is absent.
  \<open>loadConfig\<close> returns nil for an absent file and leaves \<open>a.config\<close> nil, and
  \<open>createVaultAgent\<close> then reads \<open>a.config.Vault.Server\<close>: \<open>New\<close> panics instead of
  returning.
\<close>

theorem New_missing_config_file_panics:
  "IsNotExist (Stat exampleWorld ''missing.hcl'')
   \<and> New exampleWorld [WithConfigFile ''missing.hcl''] = (Panic NilPointerDereference, [])"
  by (simp add: New_def defaultAgentOpts_def loadConfig_def createVaultAgent_def
      exampleWorld_def IsNotExist_def)

lemma createVaultAgent_undefined:
  assumes "config a = Some c"
      and "AuthMethod (Vault c) \<noteq> ''approle''" "AuthMethod (Vault c) \<noteq> ''ldap''"
          "AuthMethod (Vault c) \<noteq> ''userpass''"
  shows "\<exists>a'. createVaultAgent w a =
           (Returned (a', Some (case NewClient w (Server (Vault c)) of
                                   Inl e \<Rightarrow> e | Inr cl \<Rightarrow> UndefinedAuthMethod)), [])"
  using assms by (auto simp: createVaultAgent_def Let_def split: sum.splits)

text \<open>
  Claim C5. When the logger of the options is not nil, the configuration file is there
  and it decodes to a configuration whose \<open>authmethod\<close> is \<open>kerberos\<close>, \<open>New\<close> returns
  a nil agent and a non-nil error, and it has made no call to the store: no login
  appears among its events (there are no events at all). The error wraps the one of
  \<open>vault.NewClient\<close> if the client could not be built, and the undefined-method error
  otherwise.
\<close>

theorem New_kerberos_fails_before_login:
  assumes "log (fold applyOpt opts defaultAgentOpts) = Some l"
      and "\<not> IsNotExist (Stat w (configFile (fold applyOpt opts defaultAgentOpts)))"
      and "DecodeFile w (configFile (fold applyOpt opts defaultAgentOpts)) = Inr c"
      and "AuthMethod (Vault c) = ''kerberos''"
  shows "New w opts =
           (Returned (None, Some (AuthenticationFailed
              (case NewClient w (Server (Vault c)) of Inl e \<Rightarrow> e | Inr cl \<Rightarrow> UndefinedAuthMethod))), [])
         \<and> (\<forall>m. StoreLogin m \<notin> set (snd (New w opts)))"
proof -
  let ?agent = "\<lparr>log = l, configFile = configFile (fold applyOpt opts defaultAgentOpts),
                  config = None, client = None, secret = None, secretSync = newSecretSync\<rparr>"
  have lc: "loadConfig w ?agent (configFile ?agent) = (?agent\<lparr>config := Some c\<rparr>, None)"
    using assms(2,3) by (simp add: loadConfig_def)
  have m: "AuthMethod (Vault c) \<noteq> ''approle''" "AuthMethod (Vault c) \<noteq> ''ldap''"
          "AuthMethod (Vault c) \<noteq> ''userpass''"
    using assms(4) by simp_all
  have "config (?agent\<lparr>config := Some c\<rparr>) = Some c" by simp
  from createVaultAgent_undefined [OF this m, of w]
  obtain a' where "createVaultAgent w (?agent\<lparr>config := Some c\<rparr>) =
           (Returned (a', Some (case NewClient w (Server (Vault c)) of
                                   Inl e \<Rightarrow> e | Inr cl \<Rightarrow> UndefinedAuthMethod)), [])"
    by blast
  with lc assms(1) have "New w opts =
           (Returned (None, Some (AuthenticationFailed
              (case NewClient w (Server (Vault c)) of Inl e \<Rightarrow> e | Inr cl \<Rightarrow> UndefinedAuthMethod))), [])"
    by (simp add: New_def Let_def)
  then show ?thesis by simp
qed

theorem New_kerberos_fails_before_login_witness:
  "log (fold applyOpt [WithConfigFile ''config.hcl'', WithLogger (Some 1)] defaultAgentOpts) = Some 1
   \<and> \<not> IsNotExist (Stat kerberosWorld
           (configFile (fold applyOpt [WithConfigFile ''config.hcl'', WithLogger (Some 1)] defaultAgentOpts)))
   \<and> New kerberosWorld [WithConfigFile ''config.hcl'', WithLogger (Some 1)]
        = (Returned (None, Some (AuthenticationFailed UndefinedAuthMethod)), [])"
proof -
  let ?opts = "[WithConfigFile ''config.hcl'', WithLogger (Some 1)]"
  let ?c = "\<lparr>Vault = \<lparr>Server = ''http://localhost:8200'', AuthMethod = ''kerberos'',
       Username = ''go'', Password = ''secret'', RenewSecretsPeriod = 30\<rparr>\<rparr>"
  have h0: "log (fold applyOpt ?opts defaultAgentOpts) = Some 1"
    by (simp add: defaultAgentOpts_def)
  have h1: "\<not> IsNotExist (Stat kerberosWorld (configFile (fold applyOpt ?opts defaultAgentOpts)))"
    by (simp add: kerberosWorld_def exampleWorld_def IsNotExist_def)
  have h2: "DecodeFile kerberosWorld (configFile (fold applyOpt ?opts defaultAgentOpts)) = Inr ?c"
    by (simp add: kerberosWorld_def)
  have h3: "AuthMethod (Vault ?c) = ''kerberos''" by simp
  show ?thesis
    using h0 h1 New_kerberos_fails_before_login [OF h0 h1 h2 h3]
    by (simp add: kerberosWorld_def exampleWorld_def)
qed

section \<open>Run\<close>

lemma exampleAgent_dom:
  "dom (receivers (secretSync exampleAgent)) = {redisPath, netboxPath}"
  by (auto simp: exampleAgent_def RegisterUpdateSecret_def newAgent_def newSecretSync_def split: if_splits)

lemma Run_example:
  "Run exampleAgent exampleStore [redisPath, netboxPath] =
     (Returned None,
      [WgAdd 2, Go RenewAuthTokenTask, Go RenewSecretsTask,
       StoreRead redisPath,
       UpdateSecret 0 redisPath ''user'' (VString ''alice''),
       UpdateSecret 0 redisPath ''password'' (VString ''p1''),
       StoreRead netboxPath,
       UpdateSecret 1 netboxPath ''user'' (VString ''bob''),
       UpdateSecret 1 netboxPath ''password'' (VString ''p2'')])"
  by (simp add: Run_def pass_example del: renewSecretPaths.simps)

text \<open>Every receiver registered for the location is called with every field.\<close>

lemma dispatchFields_calls:
  "(k, v) \<in> set kvs \<Longrightarrow> r \<in> set (index_receivers (receivers (secretSync a)) L) \<Longrightarrow>
     UpdateSecret r L k v \<in> set (dispatchFields a L kvs)"
  by (induction kvs) (auto simp: setSecret_def)

text \<open>
  Claim C3. \<open>Run\<close> performs the initial pass itself, between launching the loops and
  its \<open>return\<close>. So whenever \<open>Run\<close> returns, the events it has made by then contain,
  for every location registered when it was called, the read of that location, which
  yielded the fields of a secret, followed at once by the calls of \<open>UpdateSecret\<close>: for
  each field in turn, one call to each receiver registered for the location, in
  registration order. In particular every receiver of the location has been called
  with every field of its secret.
\<close>

theorem Run_returns_after_initial_pass:
  assumes "Run a st order = (Returned err, tr)"
      and "set order = dom (receivers (secretSync a))"
  shows "\<forall>L \<in> dom (receivers (secretSync a)).
           \<exists>kvs pre post. secretFields (fst (st L)) = Inr kvs
              \<and> tr = pre @ StoreRead L
                       # concat (map (\<lambda>(k, v). map (\<lambda>r. UpdateSecret r L k v)
                                        (index_receivers (receivers (secretSync a)) L)) kvs)
                       @ post
              \<and> (\<forall>(k, v) \<in> set kvs. \<forall>r \<in> set (index_receivers (receivers (secretSync a)) L).
                     UpdateSecret r L k v \<in> set tr)"
proof
  fix L assume "L \<in> dom (receivers (secretSync a))"
  with assms(2) have L: "L \<in> set order" by simp
  from assms(1) obtain u es where p: "renewSecretPaths a st order = (Returned u, es)"
    and tr: "tr = WgAdd 2 # Go RenewAuthTokenTask # Go RenewSecretsTask # es"
    by (auto simp: Run_def split: prod.splits outcome.splits)
  from pass_returned_location [OF p L] obtain kvs pre post where
    f: "secretFields (fst (st L)) = Inr kvs"
    and es: "es = pre @ StoreRead L # dispatchFields a L kvs @ post"
    by blast
  let ?calls = "concat (map (\<lambda>(k, v). map (\<lambda>r. UpdateSecret r L k v)
                                        (index_receivers (receivers (secretSync a)) L)) kvs)"
  have d: "dispatchFields a L kvs = ?calls"
    by (simp add: dispatchFields_concat setSecret_def)
  from tr es d have shape:
    "tr = (WgAdd 2 # Go RenewAuthTokenTask # Go RenewSecretsTask # pre) @ StoreRead L # ?calls @ post"
    by simp
  have called: "\<forall>(k, v) \<in> set kvs. \<forall>r \<in> set (index_receivers (receivers (secretSync a)) L).
                     UpdateSecret r L k v \<in> set tr"
  proof (clarify)
    fix k v r
    assume "(k, v) \<in> set kvs" "r \<in> set (index_receivers (receivers (secretSync a)) L)"
    then have "UpdateSecret r L k v \<in> set (dispatchFields a L kvs)"
      by (rule dispatchFields_calls)
    with tr es show "UpdateSecret r L k v \<in> set tr" by simp
  qed
  from f shape called
  show "\<exists>kvs pre post. secretFields (fst (st L)) = Inr kvs
              \<and> tr = pre @ StoreRead L
                       # concat (map (\<lambda>(k, v). map (\<lambda>r. UpdateSecret r L k v)
                                        (index_receivers (receivers (secretSync a)) L)) kvs)
                       @ post
              \<and> (\<forall>(k, v) \<in> set kvs. \<forall>r \<in> set (index_receivers (receivers (secretSync a)) L).
                     UpdateSecret r L k v \<in> set tr)"
    by blast
qed

theorem Run_returns_after_initial_pass_witness:
  "fst (Run exampleAgent exampleStore [redisPath, netboxPath]) = Returned None
   \<and> set [redisPath, netboxPath] = dom (receivers (secretSync exampleAgent))
   \<and> netboxPath \<in> dom (receivers (secretSync exampleAgent))
   \<and> secretFields (fst (exampleStore netboxPath))
        = Inr [(''user'', VString ''bob''), (''password'', VString ''p2'')]
   \<and> index_receivers (receivers (secretSync exampleAgent)) netboxPath = [1]
   \<and> UpdateSecret 1 netboxPath ''user'' (VString ''bob'')
        \<in> set (snd (Run exampleAgent exampleStore [redisPath, netboxPath]))
   \<and> UpdateSecret 1 netboxPath ''password'' (VString ''p2'')
        \<in> set (snd (Run exampleAgent exampleStore [redisPath, netboxPath]))"
proof -
  let ?tr = "snd (Run exampleAgent exampleStore [redisPath, netboxPath])"
  have h1: "Run exampleAgent exampleStore [redisPath, netboxPath] = (Returned None, ?tr)"
    by (simp add: Run_example)
  have h2: "set [redisPath, netboxPath] = dom (receivers (secretSync exampleAgent))"
    by (simp add: exampleAgent_dom)
  have h3: "netboxPath \<in> dom (receivers (secretSync exampleAgent))"
    by (simp add: exampleAgent_dom)
  have f: "secretFields (fst (exampleStore netboxPath))
        = Inr [(''user'', VString ''bob''), (''password'', VString ''p2'')]"
    by (simp add: exampleStore_def secretFields_kv2 paths_distinct)
  have r: "index_receivers (receivers (secretSync exampleAgent)) netboxPath = [1]"
    by (simp add: exampleAgent_receivers)
  from Run_returns_after_initial_pass [OF h1 h2] h3 obtain kvs where
    "secretFields (fst (exampleStore netboxPath)) = Inr kvs"
    "\<forall>(k, v) \<in> set kvs. \<forall>r \<in> set (index_receivers (receivers (secretSync exampleAgent)) netboxPath).
        UpdateSecret r netboxPath k v \<in> set ?tr"
    by blast
  with f r have "UpdateSecret 1 netboxPath ''user'' (VString ''bob'') \<in> set ?tr
     \<and> UpdateSecret 1 netboxPath ''password'' (VString ''p2'') \<in> set ?tr"
    by auto
  moreover have "fst (Run exampleAgent exampleStore [redisPath, netboxPath]) = Returned None"
    by (simp add: Run_example)
  ultimately show ?thesis using h2 h3 f r by blast
qed

text \<open>
  Claim C9 says that \<open>Run\<close> returns nil for every agent. \<open>Run\<close> has one \<open>return\<close>,
  which returns nil, and it is reached exactly when the initial pass completes; a pass
  that panics takes \<open>Run\<close> with it. With the store whose first read fails, \<open>Run\<close>
  panics after launching the loops and issuing that read.
\<close>

theorem Run_panics_on_failed_read:
  "fst (Run a st order) =
      (case fst (renewSecretPaths a st order) of Returned u \<Rightarrow> Returned None | Panic p \<Rightarrow> Panic p)
   \<and> Run exampleAgent failingStore [redisPath, netboxPath]
       = (Panic NilPointerDereference,
          [WgAdd 2, Go RenewAuthTokenTask, Go RenewSecretsTask, StoreRead redisPath])"
  by (simp add: Run_def failingStore_def exampleAgent_fields secretFields_def
      split: prod.splits outcome.splits)

section \<open>Cancellation\<close>

lemma watchLoop_cancel:
  "watchLoop (map RenewCh ds @ AuthCtxDone # rest) = Some None"
  by (induction ds) simp_all

lemma refreshLoop_cancel:
  "\<forall>(order, st) \<in> set passes. fst (renewSecretPaths a st order) = Returned () \<Longrightarrow>
   refreshLoop a d (ticks passes @ RefreshCtxDone # rest) =
     (Some (Returned None),
      concat (map (\<lambda>(order, st). snd (renewSecretPaths a st order) @ [TimerReset d]) passes))"
proof (induction passes)
  case Nil
  then show ?case by (simp add: ticks_def)
next
  case (Cons p passes)
  obtain order st where p: "p = (order, st)" by (cases p)
  from Cons.prems p have "fst (renewSecretPaths a st order) = Returned ()" by simp
  then obtain es where es: "renewSecretPaths a st order = (Returned (), es)"
    by (cases "renewSecretPaths a st order") simp
  from Cons.prems have "\<forall>(order, st) \<in> set passes. fst (renewSecretPaths a st order) = Returned ()"
    by simp
  from Cons.IH [OF this] have
    "refreshLoop a d (ticks passes @ RefreshCtxDone # rest) =
     (Some (Returned None),
      concat (map (\<lambda>(order, st). snd (renewSecretPaths a st order) @ [TimerReset d]) passes))" .
  with es p show ?case by (simp add: ticks_def)
qed

text \<open>
  Claim C8. Once its watcher exists, the lease renewal loop that takes the cancellation
  case of its \<open>select\<close>, after any number of renewal events, returns nil, having
  stopped the watcher and called \<open>Done\<close> on the wait group, in that order. The secret
  refresh loop that takes the cancellation case, after any number of completed passes,
  returns nil as well and calls \<open>Done\<close> last. What the other channels would have
  delivered afterwards plays no part.
\<close>

theorem loops_return_nil_on_cancellation:
  assumes "NewLifetimeWatcher w (secret a) = None"
      and "config a = Some c"
      and "\<forall>(order, st) \<in> set passes. fst (renewSecretPaths a st order) = Returned ()"
  shows "renewAuthToken w a (map RenewCh ds @ AuthCtxDone # rest)
           = (Some (Returned None), [WatcherStart, WatcherStop, WgDone])
       \<and> renewSecrets a (ticks passes @ RefreshCtxDone # rest')
           = (Some (Returned None),
              NewTimer (sleepDuration c)
                # concat (map (\<lambda>(order, st). snd (renewSecretPaths a st order)
                                                  @ [TimerReset (sleepDuration c)]) passes)
                @ [WgDone])"
proof -
  have "renewAuthToken w a (map RenewCh ds @ AuthCtxDone # rest)
           = (Some (Returned None), [WatcherStart, WatcherStop, WgDone])"
    using assms(1) by (simp add: renewAuthToken_def watchLoop_cancel)
  moreover have "renewSecrets a (ticks passes @ RefreshCtxDone # rest')
           = (Some (Returned None),
              NewTimer (sleepDuration c)
                # concat (map (\<lambda>(order, st). snd (renewSecretPaths a st order)
                                                  @ [TimerReset (sleepDuration c)]) passes)
                @ [WgDone])"
    using assms(2) refreshLoop_cancel [OF assms(3), of "sleepDuration c" rest']
    by (simp add: renewSecrets_def)
  ultimately show ?thesis by blast
qed

theorem loops_return_nil_on_cancellation_witness:
  "NewLifetimeWatcher exampleWorld (secret exampleAgent) = None
   \<and> config exampleAgent = Some exampleConfig
   \<and> fst (renewSecretPaths exampleAgent exampleStore [redisPath, netboxPath]) = Returned ()
   \<and> renewAuthToken exampleWorld exampleAgent [RenewCh 3600, AuthCtxDone, DoneCh None]
        = (Some (Returned None), [WatcherStart, WatcherStop, WgDone])
   \<and> renewSecrets exampleAgent
        [TimerC [redisPath, netboxPath] exampleStore, RefreshCtxDone,
         TimerC [redisPath, netboxPath] exampleStore]
        = (Some (Returned None),
           [NewTimer 30000000000,
            StoreRead redisPath,
            UpdateSecret 0 redisPath ''user'' (VString ''alice''),
            UpdateSecret 0 redisPath ''password'' (VString ''p1''),
            StoreRead netboxPath,
            UpdateSecret 1 netboxPath ''user'' (VString ''bob''),
            UpdateSecret 1 netboxPath ''password'' (VString ''p2''),
            TimerReset 30000000000,
            WgDone])"
proof -
  have h1: "NewLifetimeWatcher exampleWorld (secret exampleAgent) = None"
    by (simp add: exampleWorld_def)
  have h2: "config exampleAgent = Some exampleConfig"
    by (simp add: exampleAgent_fields)
  have h3: "\<forall>(order, st) \<in> set [([redisPath, netboxPath], exampleStore)].
              fst (renewSecretPaths exampleAgent st order) = Returned ()"
    by (simp add: pass_example del: renewSecretPaths.simps)
  have d: "sleepDuration exampleConfig = 30000000000"
    by (simp add: sleepDuration_def exampleConfig_def)
  show ?thesis
    using h1 h2 h3
      loops_return_nil_on_cancellation [OF h1 h2 h3, of "[3600]" "[DoneCh None]"
        "[TimerC [redisPath, netboxPath] exampleStore]"]
    by (simp add: ticks_def pass_example d del: renewSecretPaths.simps)
qed

section \<open>The renewal period\<close>

lemma sleep_exact:
  fixes P :: "64 word"
  assumes "- 9223372036 \<le> sint P" "sint P \<le> 9223372036"
  shows "sint (P * 1000000000) = sint P * 1000000000"
proof -
  have "sint (P * 1000000000) = signed_take_bit 63 (sint P * 1000000000)"
    by (simp add: sint_word_ariths)
  also have "\<dots> = sint P * 1000000000"
    using assms by (intro signed_take_bit_int_eq_self) simp_all
  finally show ?thesis .
qed

lemma createVaultAgent_ok:
  assumes "config a = Some c"
      and "NewClient w (Server (Vault c)) = Inr cl"
      and "AuthMethod (Vault c) = ''approle'' \<or> AuthMethod (Vault c) = ''ldap''
            \<or> AuthMethod (Vault c) = ''userpass''"
      and "NewAuth w (AuthMethod (Vault c)) (Username (Vault c)) (Password (Vault c)) = None"
      and "Login w (AuthMethod (Vault c)) (Username (Vault c)) (Password (Vault c)) = (s, None)"
      and "TokenID w s = Inr tok"
  shows "createVaultAgent w a =
           (Returned (a\<lparr>client := Some (cl\<lparr>Token := tok\<rparr>), secret := s\<rparr>, None),
            [StoreLogin (AuthMethod (Vault c))])"
  using assms(3)
proof (elim disjE)
  assume m: "AuthMethod (Vault c) = ''approle''"
  with assms show ?thesis
    by (simp add: createVaultAgent_def loginWith_def bindToken_def)
next
  assume m: "AuthMethod (Vault c) = ''ldap''"
  with assms show ?thesis
    by (simp add: createVaultAgent_def loginWith_def bindToken_def)
next
  assume m: "AuthMethod (Vault c) = ''userpass''"
  with assms show ?thesis
    by (simp add: createVaultAgent_def loginWith_def bindToken_def)
qed

lemma config_registerAll: "config (registerAll regs a) = config a"
proof (induction regs arbitrary: a)
  case Nil
  then show ?case by (simp add: registerAll_def)
next
  case (Cons x regs)
  obtain L r where x: "x = (L, r)" by (cases x)
  have "registerAll (x # regs) a = registerAll regs (RegisterUpdateSecret a L r)"
    by (simp add: registerAll_def x)
  then show ?case by (simp add: Cons.IH RegisterUpdateSecret_def)
qed

lemma refreshLoop_passes:
  "\<forall>(order, st) \<in> set passes. fst (renewSecretPaths a st order) = Returned () \<Longrightarrow>
   refreshLoop a d (ticks passes @ rest) =
     (fst (refreshLoop a d rest),
      concat (map (\<lambda>(order, st). snd (renewSecretPaths a st order) @ [TimerReset d]) passes)
        @ snd (refreshLoop a d rest))"
proof (induction passes)
  case Nil
  then show ?case by (simp add: ticks_def)
next
  case (Cons p passes)
  obtain order st where p: "p = (order, st)" by (cases p)
  from Cons.prems p have "fst (renewSecretPaths a st order) = Returned ()" by simp
  then obtain es where es: "renewSecretPaths a st order = (Returned (), es)"
    by (cases "renewSecretPaths a st order") simp
  from Cons.prems have "\<forall>(order, st) \<in> set passes. fst (renewSecretPaths a st order) = Returned ()"
    by simp
  from Cons.IH [OF this] have
    "refreshLoop a d (ticks passes @ rest) =
     (fst (refreshLoop a d rest),
      concat (map (\<lambda>(order, st). snd (renewSecretPaths a st order) @ [TimerReset d]) passes)
        @ snd (refreshLoop a d rest))" .
  with es p show ?case by (simp add: ticks_def)
qed

text \<open>After \<open>time.NewTimer\<close>, every pass that completes is followed at once by
  \<open>timer.Reset\<close> with the same duration, and only then comes what the loop does next.\<close>

lemma renewSecrets_passes:
  assumes "config a = Some c"
      and "\<forall>(order, st) \<in> set passes. fst (renewSecretPaths a st order) = Returned ()"
  shows "\<exists>r es. renewSecrets a (ticks passes @ rest) =
           (r, NewTimer (sleepDuration c)
                 # concat (map (\<lambda>(order, st). snd (renewSecretPaths a st order)
                                                   @ [TimerReset (sleepDuration c)]) passes)
                 @ es)"
proof -
  let ?pre = "concat (map (\<lambda>(order, st). snd (renewSecretPaths a st order)
                                                   @ [TimerReset (sleepDuration c)]) passes)"
  obtain r es where l: "refreshLoop a (sleepDuration c) rest = (r, es)"
    by (cases "refreshLoop a (sleepDuration c) rest")
  with refreshLoop_passes [OF assms(2), of "sleepDuration c" rest]
  have p: "refreshLoop a (sleepDuration c) (ticks passes @ rest) = (r, ?pre @ es)"
    by simp
  show ?thesis
  proof (cases r)
    case None
    with p assms(1) have "renewSecrets a (ticks passes @ rest)
        = (None, NewTimer (sleepDuration c) # ?pre @ es)"
      by (simp add: renewSecrets_def)
    then show ?thesis by blast
  next
    case (Some x)
    with p assms(1) have "renewSecrets a (ticks passes @ rest)
        = (Some x, NewTimer (sleepDuration c) # ?pre @ (es @ [WgDone]))"
      by (simp add: renewSecrets_def)
    then show ?thesis by blast
  qed
qed

lemma refreshLoop_timer_events:
  "refreshLoop a d sel = (r, es) \<Longrightarrow>
     (\<forall>d'. NewTimer d' \<notin> set es) \<and> (\<forall>d'. TimerReset d' \<in> set es \<longrightarrow> d' = d)"
proof (induction a d sel arbitrary: r es rule: refreshLoop.induct)
  case (1 a d)
  then show ?case by simp
next
  case (2 a d rest)
  then show ?case by simp
next
  case (3 a d order st rest)
  show ?case
  proof (cases "renewSecretPaths a st order")
    case (Pair o1 es1)
    have ev: "\<And>e. e \<in> set es1 \<Longrightarrow> (\<exists>L. e = StoreRead L) \<or> (\<exists>r L k v. e = UpdateSecret r L k v)"
      using pass_events [of _ a st order] Pair by simp
    show ?thesis
    proof (cases o1)
      case (Panic p)
      with "3.prems" Pair have "es = es1" by simp
      with ev show ?thesis by fastforce
    next
      case (Returned u)
      obtain r2 es2 where l: "refreshLoop a d rest = (r2, es2)"
        by (cases "refreshLoop a d rest")
      from "3.IH" [OF Pair [symmetric] Returned l]
      have ih: "(\<forall>d'. NewTimer d' \<notin> set es2) \<and> (\<forall>d'. TimerReset d' \<in> set es2 \<longrightarrow> d' = d)"
        by simp
      from "3.prems" Pair Returned l have "es = es1 @ TimerReset d # es2" by simp
      with ev ih show ?thesis by fastforce
    qed
  qed
qed

lemma renewSecrets_timer_events:
  assumes "config a = Some c"
  shows "\<exists>r es. renewSecrets a sel = (r, NewTimer (sleepDuration c) # es)
                  \<and> (\<forall>d. NewTimer d \<notin> set es)
                  \<and> (\<forall>d. TimerReset d \<in> set es \<longrightarrow> d = sleepDuration c)"
proof -
  obtain r es where l: "refreshLoop a (sleepDuration c) sel = (r, es)"
    by (cases "refreshLoop a (sleepDuration c) sel")
  from refreshLoop_timer_events [OF l]
  have t: "(\<forall>d. NewTimer d \<notin> set es) \<and> (\<forall>d. TimerReset d \<in> set es \<longrightarrow> d = sleepDuration c)" .
  show ?thesis
  proof (cases r)
    case None
    with l assms have "renewSecrets a sel = (None, NewTimer (sleepDuration c) # es)"
      by (simp add: renewSecrets_def)
    with t show ?thesis by blast
  next
    case (Some x)
    with l assms have "renewSecrets a sel = (Some x, NewTimer (sleepDuration c) # (es @ [WgDone]))"
      by (simp add: renewSecrets_def)
    moreover from t have "(\<forall>d. NewTimer d \<notin> set (es @ [WgDone]))
        \<and> (\<forall>d. TimerReset d \<in> set (es @ [WgDone]) \<longrightarrow> d = sleepDuration c)"
      by simp
    ultimately show ?thesis by blast
  qed
qed

text \<open>
  Claim C10, amended. \<open>New\<close> does not look at \<open>renew_secrets_period\<close>: whenever the
  logger is not nil, the file decodes and the login succeeds, it returns the agent,
  whatever the period. The refresh loop of that agent, whatever has been registered
  with it in the meantime, arms its timer with \<open>time.Duration(period) * time.Second\<close>,
  a product of 64-bit integers, and after every pass that completes it resets the timer
  to the same value; no other duration reaches the timer. For a period from
  -9223372036 to 0 that product is exactly the period in seconds, a non-positive
  duration.
\<close>

theorem New_accepts_any_period:
  assumes "log (fold applyOpt opts defaultAgentOpts) = Some l"
      and "\<not> IsNotExist (Stat w (configFile (fold applyOpt opts defaultAgentOpts)))"
      and "DecodeFile w (configFile (fold applyOpt opts defaultAgentOpts)) = Inr c"
      and "NewClient w (Server (Vault c)) = Inr cl"
      and "AuthMethod (Vault c) = ''approle'' \<or> AuthMethod (Vault c) = ''ldap''
            \<or> AuthMethod (Vault c) = ''userpass''"
      and "NewAuth w (AuthMethod (Vault c)) (Username (Vault c)) (Password (Vault c)) = None"
      and "Login w (AuthMethod (Vault c)) (Username (Vault c)) (Password (Vault c)) = (s, None)"
      and "TokenID w s = Inr tok"
  shows "(\<exists>a. New w opts = (Returned (Some a, None), [StoreLogin (AuthMethod (Vault c))])
            \<and> config a = Some c
            \<and> (\<forall>regs passes rest.
                  (\<forall>(order, st) \<in> set passes.
                      fst (renewSecretPaths (registerAll regs a) st order) = Returned ()) \<longrightarrow>
                  (\<exists>r es. renewSecrets (registerAll regs a) (ticks passes @ rest) =
                     (r, NewTimer (sleepDuration c)
                           # concat (map (\<lambda>(order, st).
                                 snd (renewSecretPaths (registerAll regs a) st order)
                                   @ [TimerReset (sleepDuration c)]) passes)
                           @ es)))
            \<and> (\<forall>regs sel. \<exists>r es.
                  renewSecrets (registerAll regs a) sel = (r, NewTimer (sleepDuration c) # es)
                  \<and> (\<forall>d. NewTimer d \<notin> set es)
                  \<and> (\<forall>d. TimerReset d \<in> set es \<longrightarrow> d = sleepDuration c)))
       \<and> sleepDuration c = RenewSecretsPeriod (Vault c) * 1000000000
       \<and> (- 9223372036 \<le> sint (RenewSecretsPeriod (Vault c)) \<and> sint (RenewSecretsPeriod (Vault c)) \<le> 0
            \<longrightarrow> sint (sleepDuration c) = sint (RenewSecretsPeriod (Vault c)) * 1000000000
              \<and> sint (sleepDuration c) \<le> 0)"
proof -
  let ?agent = "\<lparr>log = l, configFile = configFile (fold applyOpt opts defaultAgentOpts),
                  config = None, client = None, secret = None, secretSync = newSecretSync\<rparr>"
  let ?a = "?agent\<lparr>config := Some c, client := Some (cl\<lparr>Token := tok\<rparr>), secret := s\<rparr>"
  have lc: "loadConfig w ?agent (configFile ?agent) = (?agent\<lparr>config := Some c\<rparr>, None)"
    using assms(2,3) by (simp add: loadConfig_def)
  have "config (?agent\<lparr>config := Some c\<rparr>) = Some c" by simp
  from createVaultAgent_ok [OF this assms(4-8)]
  have "createVaultAgent w (?agent\<lparr>config := Some c\<rparr>) =
          (Returned (?a, None), [StoreLogin (AuthMethod (Vault c))])"
    by simp
  with lc assms(1)
  have new: "New w opts = (Returned (Some ?a, None), [StoreLogin (AuthMethod (Vault c))])"
    by (simp add: New_def Let_def)
  have cfg: "config ?a = Some c" by simp
  have cfgr: "config (registerAll regs ?a) = Some c" for regs
    by (simp add: config_registerAll)
  have resets: "\<forall>regs passes rest.
                  (\<forall>(order, st) \<in> set passes.
                      fst (renewSecretPaths (registerAll regs ?a) st order) = Returned ()) \<longrightarrow>
                  (\<exists>r es. renewSecrets (registerAll regs ?a) (ticks passes @ rest) =
                     (r, NewTimer (sleepDuration c)
                           # concat (map (\<lambda>(order, st).
                                 snd (renewSecretPaths (registerAll regs ?a) st order)
                                   @ [TimerReset (sleepDuration c)]) passes)
                           @ es))"
    using renewSecrets_passes [OF cfgr] by blast
  have timers: "\<forall>regs sel. \<exists>r es.
                  renewSecrets (registerAll regs ?a) sel = (r, NewTimer (sleepDuration c) # es)
                  \<and> (\<forall>d. NewTimer d \<notin> set es)
                  \<and> (\<forall>d. TimerReset d \<in> set es \<longrightarrow> d = sleepDuration c)"
    using renewSecrets_timer_events [OF cfgr] by blast
  have exact: "- 9223372036 \<le> sint (RenewSecretsPeriod (Vault c)) \<and> sint (RenewSecretsPeriod (Vault c)) \<le> 0
            \<longrightarrow> sint (sleepDuration c) = sint (RenewSecretsPeriod (Vault c)) * 1000000000
              \<and> sint (sleepDuration c) \<le> 0"
  proof
    assume b: "- 9223372036 \<le> sint (RenewSecretsPeriod (Vault c)) \<and> sint (RenewSecretsPeriod (Vault c)) \<le> 0"
    then have "sint (sleepDuration c) = sint (RenewSecretsPeriod (Vault c)) * 1000000000"
      unfolding sleepDuration_def by (intro sleep_exact) simp_all
    with b show "sint (sleepDuration c) = sint (RenewSecretsPeriod (Vault c)) * 1000000000
              \<and> sint (sleepDuration c) \<le> 0" by simp
  qed
  have def: "sleepDuration c = RenewSecretsPeriod (Vault c) * 1000000000"
    by (simp add: sleepDuration_def)
  from new cfg resets timers
  have "\<exists>a. New w opts = (Returned (Some a, None), [StoreLogin (AuthMethod (Vault c))])
            \<and> config a = Some c
            \<and> (\<forall>regs passes rest.
                  (\<forall>(order, st) \<in> set passes.
                      fst (renewSecretPaths (registerAll regs a) st order) = Returned ()) \<longrightarrow>
                  (\<exists>r es. renewSecrets (registerAll regs a) (ticks passes @ rest) =
                     (r, NewTimer (sleepDuration c)
                           # concat (map (\<lambda>(order, st).
                                 snd (renewSecretPaths (registerAll regs a) st order)
                                   @ [TimerReset (sleepDuration c)]) passes)
                           @ es)))
            \<and> (\<forall>regs sel. \<exists>r es.
                  renewSecrets (registerAll regs a) sel = (r, NewTimer (sleepDuration c) # es)
                  \<and> (\<forall>d. NewTimer d \<notin> set es)
                  \<and> (\<forall>d. TimerReset d \<in> set es \<longrightarrow> d = sleepDuration c))"
    by (intro exI [of _ ?a] conjI)
  with def exact show ?thesis by (intro conjI)
qed

theorem New_accepts_any_period_witness:
  "log (fold applyOpt [WithConfigFile ''config.hcl''] defaultAgentOpts) = Some defaultLogger
   \<and> \<not> IsNotExist (Stat negativeWorld (configFile (fold applyOpt [WithConfigFile ''config.hcl''] defaultAgentOpts)))
   \<and> sint (RenewSecretsPeriod (Vault negativeConfig)) = - 5
   \<and> New negativeWorld [WithConfigFile ''config.hcl'']
        = (Returned (Some negativeAgent, None), [StoreLogin ''userpass''])
   \<and> renewSecrets (registerAll [(redisPath, 0), (netboxPath, 1)] negativeAgent)
        [TimerC [redisPath, netboxPath] exampleStore]
        = (None,
           [NewTimer (- 5000000000),
            StoreRead redisPath,
            UpdateSecret 0 redisPath ''user'' (VString ''alice''),
            UpdateSecret 0 redisPath ''password'' (VString ''p1''),
            StoreRead netboxPath,
            UpdateSecret 1 netboxPath ''user'' (VString ''bob''),
            UpdateSecret 1 netboxPath ''password'' (VString ''p2''),
            TimerReset (- 5000000000)])
   \<and> sint (sleepDuration negativeConfig) = - 5000000000"
proof -
  let ?opts = "[WithConfigFile ''config.hcl'']"
  let ?cl = "\<lparr>Address = ''http://localhost:8200'', Token = []\<rparr>"
  define b where "b = registerAll [(redisPath, 0), (netboxPath, 1)] negativeAgent"
  have h0: "log (fold applyOpt ?opts defaultAgentOpts) = Some defaultLogger"
    by (simp add: defaultAgentOpts_def)
  have h1: "\<not> IsNotExist (Stat negativeWorld (configFile (fold applyOpt ?opts defaultAgentOpts)))"
    by (simp add: negativeWorld_def exampleWorld_def IsNotExist_def)
  have h2: "DecodeFile negativeWorld (configFile (fold applyOpt ?opts defaultAgentOpts)) = Inr negativeConfig"
    by (simp add: negativeWorld_def)
  have h3: "NewClient negativeWorld (Server (Vault negativeConfig)) = Inr ?cl"
    by (simp add: negativeWorld_def exampleWorld_def negativeConfig_def)
  have h4: "AuthMethod (Vault negativeConfig) = ''approle'' \<or> AuthMethod (Vault negativeConfig) = ''ldap''
            \<or> AuthMethod (Vault negativeConfig) = ''userpass''"
    by (simp add: negativeConfig_def)
  have h5: "NewAuth negativeWorld (AuthMethod (Vault negativeConfig)) (Username (Vault negativeConfig))
              (Password (Vault negativeConfig)) = None"
    by (simp add: negativeWorld_def exampleWorld_def)
  have h6: "Login negativeWorld (AuthMethod (Vault negativeConfig)) (Username (Vault negativeConfig))
              (Password (Vault negativeConfig)) = (Some exampleLogin, None)"
    by (simp add: negativeWorld_def exampleWorld_def)
  have h7: "TokenID negativeWorld (Some exampleLogin) = Inr ''s.token''"
    by (simp add: negativeWorld_def exampleWorld_def)
  have p: "sint (RenewSecretsPeriod (Vault negativeConfig)) = - 5"
    by (simp add: negativeConfig_def)
  have n: "New negativeWorld ?opts = (Returned (Some negativeAgent, None), [StoreLogin ''userpass''])"
    by (simp add: New_def defaultAgentOpts_def loadConfig_def createVaultAgent_def loginWith_def
      bindToken_def negativeWorld_def exampleWorld_def IsNotExist_def negativeConfig_def
      negativeAgent_def newAgent_def)
  have b: "b = exampleAgent\<lparr>config := Some negativeConfig\<rparr>"
    by (simp add: b_def registerAll_def exampleAgent_def negativeAgent_def RegisterUpdateSecret_def)
  have pass: "renewSecretPaths b exampleStore [redisPath, netboxPath] =
     (Returned (),
      [StoreRead redisPath,
       UpdateSecret 0 redisPath ''user'' (VString ''alice''),
       UpdateSecret 0 redisPath ''password'' (VString ''p1''),
       StoreRead netboxPath,
       UpdateSecret 1 netboxPath ''user'' (VString ''bob''),
       UpdateSecret 1 netboxPath ''password'' (VString ''p2'')])"
    unfolding b
    by (simp add: exampleAgent_fields exampleStore_def secretFields_kv2 paths_distinct
      setSecret_def exampleAgent_receivers)
  have d: "sleepDuration negativeConfig = - 5000000000"
    by (simp add: sleepDuration_def negativeConfig_def)
  have hp: "\<forall>(order, st) \<in> set [([redisPath, netboxPath], exampleStore)].
              fst (renewSecretPaths b st order) = Returned ()"
    by (simp add: pass del: renewSecretPaths.simps)
  from New_accepts_any_period [OF h0 h1 h2 h3 h4 h5 h6 h7] n
  have "\<forall>regs passes rest.
          (\<forall>(order, st) \<in> set passes.
              fst (renewSecretPaths (registerAll regs negativeAgent) st order) = Returned ()) \<longrightarrow>
          (\<exists>r es. renewSecrets (registerAll regs negativeAgent) (ticks passes @ rest) =
             (r, NewTimer (sleepDuration negativeConfig)
                   # concat (map (\<lambda>(order, st).
                         snd (renewSecretPaths (registerAll regs negativeAgent) st order)
                           @ [TimerReset (sleepDuration negativeConfig)]) passes)
                   @ es))"
    by auto
  with hp obtain r es where
    "renewSecrets b (ticks [([redisPath, netboxPath], exampleStore)] @ []) =
       (r, NewTimer (sleepDuration negativeConfig)
             # concat (map (\<lambda>(order, st). snd (renewSecretPaths b st order)
                           @ [TimerReset (sleepDuration negativeConfig)])
                        [([redisPath, netboxPath], exampleStore)])
             @ es)"
    unfolding b_def by blast
  then have shape: "renewSecrets b [TimerC [redisPath, netboxPath] exampleStore] =
       (r, [NewTimer (- 5000000000),
            StoreRead redisPath,
            UpdateSecret 0 redisPath ''user'' (VString ''alice''),
            UpdateSecret 0 redisPath ''password'' (VString ''p1''),
            StoreRead netboxPath,
            UpdateSecret 1 netboxPath ''user'' (VString ''bob''),
            UpdateSecret 1 netboxPath ''password'' (VString ''p2''),
            TimerReset (- 5000000000)] @ es)"
    by (simp add: ticks_def pass d del: renewSecretPaths.simps)
  have "config b = Some negativeConfig"
    by (simp add: b)
  with shape have direct: "renewSecrets b [TimerC [redisPath, netboxPath] exampleStore] =
       (None, [NewTimer (- 5000000000),
            StoreRead redisPath,
            UpdateSecret 0 redisPath ''user'' (VString ''alice''),
            UpdateSecret 0 redisPath ''password'' (VString ''p1''),
            StoreRead netboxPath,
            UpdateSecret 1 netboxPath ''user'' (VString ''bob''),
            UpdateSecret 1 netboxPath ''password'' (VString ''p2''),
            TimerReset (- 5000000000)])"
    by (simp add: renewSecrets_def d pass del: renewSecretPaths.simps)
  have ds: "sint (sleepDuration negativeConfig) = - 5000000000"
    by (simp add: d)
  from h0 h1 p n direct [unfolded b_def] ds show ?thesis
    by (intro conjI)
qed

text \<open>
  Claim C10 as stated fails below that range: for the negative period -9223372037 the
  product wraps around: \<open>New\<close> returns the agent, and the loop arms its timer with a
  positive duration of 9223372036709551616 nanoseconds instead of -9223372037 seconds.
\<close>

theorem negative_period_wraps_counterexample:
  "New wrapWorld [WithConfigFile ''config.hcl'']
      = (Returned (Some wrapAgent, None), [StoreLogin ''userpass''])
   \<and> sint (RenewSecretsPeriod (Vault wrapConfig)) = - 9223372037
   \<and> renewSecrets wrapAgent [] = (None, [NewTimer (sleepDuration wrapConfig)])
   \<and> sint (sleepDuration wrapConfig) = 9223372036709551616
   \<and> \<not> sint (sleepDuration wrapConfig) \<le> 0
   \<and> sint (sleepDuration wrapConfig) \<noteq> sint (RenewSecretsPeriod (Vault wrapConfig)) * 1000000000"
proof -
  have "New wrapWorld [WithConfigFile ''config.hcl'']
      = (Returned (Some wrapAgent, None), [StoreLogin ''userpass''])"
    by (simp add: New_def defaultAgentOpts_def loadConfig_def createVaultAgent_def loginWith_def
      bindToken_def wrapWorld_def exampleWorld_def IsNotExist_def wrapConfig_def
      wrapAgent_def newAgent_def)
  moreover have "sint (RenewSecretsPeriod (Vault wrapConfig)) = - 9223372037
   \<and> renewSecrets wrapAgent [] = (None, [NewTimer (sleepDuration wrapConfig)])
   \<and> sint (sleepDuration wrapConfig) = 9223372036709551616
   \<and> \<not> sint (sleepDuration wrapConfig) \<le> 0
   \<and> sint (sleepDuration wrapConfig) \<noteq> sint (RenewSecretsPeriod (Vault wrapConfig)) * 1000000000"
    by (simp add: wrapAgent_def wrapConfig_def renewSecrets_def sleepDuration_def)
  ultimately show ?thesis by blast
qed

section \<open>Times of the passes\<close>

text \<open>The first pass, if there is one, waited for the timer armed at the start, and every
  pass waited for a timer of the loop's duration.\<close>

lemma passTimes_head:
  "passTimes a d ta sel = q # qs \<Longrightarrow> armed q = ta \<and> period q = d"
  by (induction a d ta sel rule: passTimes.induct)
     (auto split: prod.splits outcome.splits)

text \<open>Under the timer contract, a pass that is followed by another one has returned, the
  timer of the next pass was armed at that return, the next pass starts no earlier,
  and the two starts lie at least the armed duration apart.\<close>

lemma passTimes_separated:
  "\<forall>p \<in> set (passTimes a d ta sel). timerContract p \<Longrightarrow>
   successively (\<lambda>p q. \<exists>r. returned p = Some r \<and> armed q = r \<and> r \<le> started q
                          \<and> started p + sint d \<le> started q)
     (passTimes a d ta sel)"
proof (induction a d ta sel rule: passTimes.induct)
  case (1 a d ta)
  then show ?case by simp
next
  case (2 a d ta t rest)
  then show ?case by simp
next
  case (3 a d ta t order st t' rest)
  show ?case
  proof (cases "renewSecretPaths a st order")
    case (Pair o1 es)
    show ?thesis
    proof (cases o1)
      case (Panic x)
      with Pair show ?thesis by simp
    next
      case (Returned u)
      let ?p = "\<lparr>armed = ta, period = d, started = t, returned = Some t'\<rparr>"
      from Pair Returned have eq: "passTimes a d ta (TimerAt t order st t' # rest)
          = ?p # passTimes a d t' rest" by simp
      from "3.prems" have "\<forall>p \<in> set (?p # passTimes a d t' rest). timerContract p"
        unfolding eq .
      then have cp: "timerContract ?p"
        and crest: "\<forall>p \<in> set (passTimes a d t' rest). timerContract p" by simp_all
      from "3.IH" [OF Pair [symmetric] Returned crest]
      have ih: "successively (\<lambda>p q. \<exists>r. returned p = Some r \<and> armed q = r \<and> r \<le> started q
                          \<and> started p + sint d \<le> started q) (passTimes a d t' rest)" .
      show ?thesis
      proof (cases "passTimes a d t' rest")
        case Nil
        with eq show ?thesis by simp
      next
        case (Cons q qs)
        from passTimes_head [OF Cons] have hq: "armed q = t'" "period q = d" by simp_all
        from crest Cons have cq: "timerContract q" by simp
        from cp have "t \<le> t'" by (simp add: timerContract_def)
        moreover from cq hq have "t' \<le> started q" "t' + sint d \<le> started q"
          by (simp_all add: timerContract_def)
        ultimately have "\<exists>r. returned ?p = Some r \<and> armed q = r \<and> r \<le> started q
                          \<and> started ?p + sint d \<le> started q"
          using hq by simp
        with ih Cons eq show ?thesis by simp
      qed
    qed
  qed
qed

text \<open>The passes that returned are the passes after which the loop of the embedding
  resets its timer.\<close>

lemma pass_no_reset:
  "TimerReset d \<notin> set (snd (renewSecretPaths a st order))"
  using pass_events [of "TimerReset d" a st order] by auto

lemma passTimes_resets:
  "length (filter (\<lambda>p. returned p \<noteq> None) (passTimes a d ta sel))
     = length (filter (\<lambda>e. e = TimerReset d) (snd (refreshLoop a d (untimed sel))))"
proof (induction a d ta sel rule: passTimes.induct)
  case (1 a d ta)
  then show ?case by simp
next
  case (2 a d ta t rest)
  then show ?case by simp
next
  case (3 a d ta t order st t' rest)
  show ?case
  proof (cases "renewSecretPaths a st order")
    case (Pair o1 es)
    from pass_no_reset [of d a st order] Pair
    have nr: "filter (\<lambda>e. e = TimerReset d) es = []"
      by (auto simp: filter_empty_conv)
    show ?thesis
    proof (cases o1)
      case (Panic x)
      with Pair nr show ?thesis by simp
    next
      case (Returned u)
      from "3.IH" [OF Pair [symmetric] Returned]
      have "length (filter (\<lambda>p. returned p \<noteq> None) (passTimes a d t' rest))
        = length (filter (\<lambda>e. e = TimerReset d) (snd (refreshLoop a d (untimed rest))))" .
      with Pair Returned nr show ?thesis
        by (simp split: prod.splits)
    qed
  qed
qed

lemma renewSecrets_resets:
  assumes "config a = Some c"
  shows "length (filter (\<lambda>p. returned p \<noteq> None) (renewSecretsTimes a t0 sel))
     = length (filter (\<lambda>e. e = TimerReset (sleepDuration c)) (snd (renewSecrets a (untimed sel))))"
proof -
  obtain r es where l: "refreshLoop a (sleepDuration c) (untimed sel) = (r, es)"
    by (cases "refreshLoop a (sleepDuration c) (untimed sel)")
  have "filter (\<lambda>e. e = TimerReset (sleepDuration c)) (snd (renewSecrets a (untimed sel)))
      = filter (\<lambda>e. e = TimerReset (sleepDuration c)) es"
    using assms l by (cases r) (simp_all add: renewSecrets_def)
  with passTimes_resets [of a "sleepDuration c" t0 sel] l assms show ?thesis
    by (simp add: renewSecretsTimes_def)
qed

lemma exampleRun_times:
  "renewSecretsTimes exampleAgent 0 exampleRun =
     [\<lparr>armed = 0, period = 30000000000, started = 30000000000, returned = Some 75000000000\<rparr>,
      \<lparr>armed = 75000000000, period = 30000000000, started = 105000000000,
         returned = Some 105005000000\<rparr>]"
  by (simp add: renewSecretsTimes_def exampleRun_def exampleAgent_fields sleepDuration_def
      exampleConfig_def exampleStore_def secretFields_kv2 paths_distinct split: prod.splits)

lemma overflowAgent_fields:
  "client overflowAgent = Some \<lparr>Address = ''http://localhost:8200'', Token = ''s.token''\<rparr>"
  "config overflowAgent = Some overflowConfig"
  by (simp_all add: overflowAgent_def exampleAgent_fields)

text \<open>
  Claim C7, amended. The refresh loop resets its timer right after each pass that
  completes, and does nothing else between that pass and the next \<open>select\<close>: in its
  events every completed pass is followed at once by the reset, and the passes that
  returned are as many as the resets. So in every timed run in which the timer delivers
  no earlier than its duration after it was armed, two consecutive passes do not
  overlap (the earlier one has returned, the timer for the later one was armed at that
  return, and the later one starts after it), and their starts lie at least the armed
  duration apart, however long a pass takes. For a period of P seconds with
  -9223372036 \<le> P \<le> 9223372036 the armed duration is P seconds, so the starts are at
  least P seconds apart.
\<close>

theorem passes_separated_by_period:
  assumes "config a = Some c"
      and "\<forall>p \<in> set (renewSecretsTimes a t0 sel). timerContract p"
  shows "(\<forall>passes rest.
            (\<forall>(order, st) \<in> set passes. fst (renewSecretPaths a st order) = Returned ()) \<longrightarrow>
            (\<exists>r es. renewSecrets a (ticks passes @ rest) =
               (r, NewTimer (sleepDuration c)
                     # concat (map (\<lambda>(order, st). snd (renewSecretPaths a st order)
                                                       @ [TimerReset (sleepDuration c)]) passes)
                     @ es)))
       \<and> length (filter (\<lambda>p. returned p \<noteq> None) (renewSecretsTimes a t0 sel))
           = length (filter (\<lambda>e. e = TimerReset (sleepDuration c))
                       (snd (renewSecrets a (untimed sel))))
       \<and> successively (\<lambda>p q. \<exists>r. returned p = Some r \<and> armed q = r \<and> r \<le> started q
                                \<and> started p + sint (sleepDuration c) \<le> started q)
           (renewSecretsTimes a t0 sel)
       \<and> (- 9223372036 \<le> sint (RenewSecretsPeriod (Vault c))
            \<and> sint (RenewSecretsPeriod (Vault c)) \<le> 9223372036 \<longrightarrow>
          successively (\<lambda>p q. started p + sint (RenewSecretsPeriod (Vault c)) * 1000000000
                                 \<le> started q)
            (renewSecretsTimes a t0 sel))"
proof -
  have A: "\<forall>passes rest.
            (\<forall>(order, st) \<in> set passes. fst (renewSecretPaths a st order) = Returned ()) \<longrightarrow>
            (\<exists>r es. renewSecrets a (ticks passes @ rest) =
               (r, NewTimer (sleepDuration c)
                     # concat (map (\<lambda>(order, st). snd (renewSecretPaths a st order)
                                                       @ [TimerReset (sleepDuration c)]) passes)
                     @ es))"
    using renewSecrets_passes [OF assms(1)] by blast
  have B: "length (filter (\<lambda>p. returned p \<noteq> None) (renewSecretsTimes a t0 sel))
           = length (filter (\<lambda>e. e = TimerReset (sleepDuration c))
                       (snd (renewSecrets a (untimed sel))))"
    by (rule renewSecrets_resets [OF assms(1)])
  have eq: "renewSecretsTimes a t0 sel = passTimes a (sleepDuration c) t0 sel"
    using assms(1) by (simp add: renewSecretsTimes_def)
  from assms(2) have "\<forall>p \<in> set (passTimes a (sleepDuration c) t0 sel). timerContract p"
    by (simp add: eq)
  from passTimes_separated [OF this]
  have C: "successively (\<lambda>p q. \<exists>r. returned p = Some r \<and> armed q = r \<and> r \<le> started q
                                \<and> started p + sint (sleepDuration c) \<le> started q)
           (renewSecretsTimes a t0 sel)"
    by (simp add: eq)
  have D: "- 9223372036 \<le> sint (RenewSecretsPeriod (Vault c))
            \<and> sint (RenewSecretsPeriod (Vault c)) \<le> 9223372036 \<longrightarrow>
          successively (\<lambda>p q. started p + sint (RenewSecretsPeriod (Vault c)) * 1000000000
                                 \<le> started q)
            (renewSecretsTimes a t0 sel)"
  proof
    assume "- 9223372036 \<le> sint (RenewSecretsPeriod (Vault c))
            \<and> sint (RenewSecretsPeriod (Vault c)) \<le> 9223372036"
    then have "sint (sleepDuration c) = sint (RenewSecretsPeriod (Vault c)) * 1000000000"
      unfolding sleepDuration_def by (intro sleep_exact) simp_all
    with C show "successively (\<lambda>p q. started p + sint (RenewSecretsPeriod (Vault c)) * 1000000000
                                 \<le> started q) (renewSecretsTimes a t0 sel)"
      by (auto elim: successively_mono)
  qed
  from A B C D show ?thesis by (intro conjI)
qed

theorem passes_separated_by_period_witness:
  "config exampleAgent = Some exampleConfig
   \<and> sint (RenewSecretsPeriod (Vault exampleConfig)) = 30
   \<and> renewSecretsTimes exampleAgent 0 exampleRun =
     [\<lparr>armed = 0, period = 30000000000, started = 30000000000, returned = Some 75000000000\<rparr>,
      \<lparr>armed = 75000000000, period = 30000000000, started = 105000000000,
         returned = Some 105005000000\<rparr>]
   \<and> timerContract \<lparr>armed = 0, period = 30000000000, started = 30000000000,
                      returned = Some 75000000000\<rparr>
   \<and> timerContract \<lparr>armed = 75000000000, period = 30000000000, started = 105000000000,
                      returned = Some 105005000000\<rparr>
   \<and> (30000000000::int) + 30 * 1000000000 \<le> 105000000000
   \<and> length (filter (\<lambda>e. e = TimerReset 30000000000)
               (snd (renewSecrets exampleAgent (untimed exampleRun)))) = 2"
proof -
  have h1: "config exampleAgent = Some exampleConfig"
    by (simp add: exampleAgent_fields)
  have p: "sint (RenewSecretsPeriod (Vault exampleConfig)) = 30"
    by (simp add: exampleConfig_def)
  have c1: "timerContract \<lparr>armed = 0, period = 30000000000, started = 30000000000,
                      returned = Some 75000000000\<rparr>"
    by (simp add: timerContract_def)
  have c2: "timerContract \<lparr>armed = 75000000000, period = 30000000000, started = 105000000000,
                      returned = Some 105005000000\<rparr>"
    by (simp add: timerContract_def)
  have h2: "\<forall>p \<in> set (renewSecretsTimes exampleAgent 0 exampleRun). timerContract p"
    using c1 c2 by (simp add: exampleRun_times)
  have d: "sleepDuration exampleConfig = 30000000000"
    by (simp add: sleepDuration_def exampleConfig_def)
  from passes_separated_by_period [OF h1 h2] p
  have sep: "successively (\<lambda>p q. started p + sint (RenewSecretsPeriod (Vault exampleConfig)) * 1000000000
                                 \<le> started q)
            (renewSecretsTimes exampleAgent 0 exampleRun)"
    and cnt: "length (filter (\<lambda>p. returned p \<noteq> None) (renewSecretsTimes exampleAgent 0 exampleRun))
           = length (filter (\<lambda>e. e = TimerReset (sleepDuration exampleConfig))
                       (snd (renewSecrets exampleAgent (untimed exampleRun))))"
    by simp_all
  from sep p have s: "(30000000000::int) + 30 * 1000000000 \<le> 105000000000"
    by (simp add: exampleRun_times)
  from cnt have n: "length (filter (\<lambda>e. e = TimerReset 30000000000)
               (snd (renewSecrets exampleAgent (untimed exampleRun)))) = 2"
    by (simp add: exampleRun_times d)
  from h1 p exampleRun_times c1 c2 s n show ?thesis by (intro conjI)
qed

text \<open>
  Claim C7 as stated fails above that range: for a period of 9223372037 seconds the
  product wraps around to a negative duration, with which the timer delivers at once.
  The two passes of this run respect the timer contract and start 5001000 nanoseconds
  apart, not 9223372037 seconds.
\<close>

theorem period_overflow_counterexample:
  "config overflowAgent = Some overflowConfig
   \<and> sint (RenewSecretsPeriod (Vault overflowConfig)) = 9223372037
   \<and> sint (sleepDuration overflowConfig) = - 9223372036709551616
   \<and> renewSecretsTimes overflowAgent 0 overflowRun =
       [\<lparr>armed = 0, period = sleepDuration overflowConfig, started = 1000,
           returned = Some 5001000\<rparr>,
        \<lparr>armed = 5001000, period = sleepDuration overflowConfig, started = 5002000,
           returned = Some 10002000\<rparr>]
   \<and> timerContract (renewSecretsTimes overflowAgent 0 overflowRun ! 0)
   \<and> timerContract (renewSecretsTimes overflowAgent 0 overflowRun ! 1)
   \<and> \<not> (started (renewSecretsTimes overflowAgent 0 overflowRun ! 0)
          + sint (RenewSecretsPeriod (Vault overflowConfig)) * 1000000000
        \<le> started (renewSecretsTimes overflowAgent 0 overflowRun ! 1))"
proof -
  have d: "sint (sleepDuration overflowConfig) = - 9223372036709551616"
    by (simp add: sleepDuration_def overflowConfig_def)
  have p: "sint (RenewSecretsPeriod (Vault overflowConfig)) = 9223372037"
    by (simp add: overflowConfig_def)
  have r: "renewSecretsTimes overflowAgent 0 overflowRun =
       [\<lparr>armed = 0, period = sleepDuration overflowConfig, started = 1000,
           returned = Some 5001000\<rparr>,
        \<lparr>armed = 5001000, period = sleepDuration overflowConfig, started = 5002000,
           returned = Some 10002000\<rparr>]"
    by (simp add: renewSecretsTimes_def overflowRun_def overflowAgent_fields
        exampleStore_def secretFields_kv2 paths_distinct split: prod.splits)
  have c0: "timerContract (renewSecretsTimes overflowAgent 0 overflowRun ! 0)"
    by (simp add: r timerContract_def d)
  have c1: "timerContract (renewSecretsTimes overflowAgent 0 overflowRun ! 1)"
    by (simp add: r timerContract_def d)
  have n: "\<not> (started (renewSecretsTimes overflowAgent 0 overflowRun ! 0)
          + sint (RenewSecretsPeriod (Vault overflowConfig)) * 1000000000
        \<le> started (renewSecretsTimes overflowAgent 0 overflowRun ! 1))"
    by (simp add: r p)
  from overflowAgent_fields(2) p d r c0 c1 n show ?thesis by (intro conjI)
qed

end
